theory Spec2Isabelle
  imports Complex_Main
begin

section \<open>The classMap directive of lit-html\<close>

text \<open>
  This theory embeds \<^verbatim>\<open>src/directives/class-map.ts\<close>: the \<^verbatim>\<open>ClassList\<close> shim,
  the per-part cache of previously applied classes and the \<^verbatim>\<open>classMap\<close> directive.
  State is passed explicitly: a \<open>World\<close> holds what one binding site can read and
  write (the class attribute of its element, whether the element has a native
  \<^verbatim>\<open>classList\<close>, and the cache entry of the part), together with the list of calls the
  directive has made on its class list and on the host.
\<close>

subsection \<open>Values of a ClassInfo: string, boolean, number\<close>

text \<open>
  The directive looks at a value in two ways only: \<^verbatim>\<open>value != previousClasses.has(name)\<close>
  (loose inequality with a boolean) and \<^verbatim>\<open>if (value)\<close> (truthiness). A number is
  kept by its mathematical value: no arithmetic is done on it, and both zeros of
  JavaScript are \<open>Finite 0\<close> (they are equal and falsy alike).

  The number a string converts to is the double nearest to the value of its literal.
  The directive compares it with 0 and 1 only, so \<open>RoundMVResult\<close> rounds where that
  can be seen: to 0, to 1 and to the infinities (round to nearest, ties to even);
  any other value stands for its double.
\<close>

datatype js_number = NaN | PosInfinity | NegInfinity | Finite real

datatype js_value = VString string | VBoolean bool | VNumber js_number

fun ToBoolean :: "js_value \<Rightarrow> bool" where
  "ToBoolean (VBoolean b) = b"
| "ToBoolean (VNumber n) = (n \<noteq> NaN \<and> n \<noteq> Finite 0)"
| "ToBoolean (VString s) = (s \<noteq> [])"

definition RoundMVResult :: "real \<Rightarrow> js_number" where
  "RoundMVResult x =
     (if \<bar>x\<bar> \<le> 1 / 2 ^ 1075 then Finite 0
      else if 1 - 1 / 2 ^ 54 \<le> x \<and> x \<le> 1 + 1 / 2 ^ 53 then Finite 1
      else if 2 ^ 1024 - 2 ^ 970 \<le> x then PosInfinity
      else if x \<le> - (2 ^ 1024 - 2 ^ 970) then NegInfinity
      else Finite x)"

text \<open>
  White space of JavaScript (\<^verbatim>\<open>\s\<close> of a regular expression, and the white space
  \<^verbatim>\<open>StringToNumber\<close> trims) among the code units below 256: tab, line feed, vertical
  tab, form feed, carriage return, space and the no-break space.
\<close>

definition js_space :: "char \<Rightarrow> bool" where
  "js_space c = (c \<in> set [CHR 0x09, CHR 0x0A, CHR 0x0B, CHR 0x0C, CHR 0x0D, CHR 0x20, CHR 0xA0])"

definition is_digit :: "nat \<Rightarrow> char \<Rightarrow> bool" where
  "is_digit base c =
     (let n = (of_char c :: nat) in
      (48 \<le> n \<and> n < 48 + min base 10) \<or>
      (10 < base \<and> ((65 \<le> n \<and> n < 55 + base) \<or> (97 \<le> n \<and> n < 87 + base))))"

definition digit_value :: "char \<Rightarrow> nat" where
  "digit_value c =
     (let n = (of_char c :: nat) in
      if n < 58 then n - 48 else if n < 91 then n - 55 else n - 87)"

definition digits_value :: "nat \<Rightarrow> string \<Rightarrow> nat" where
  "digits_value base ds = foldl (\<lambda>n c. base * n + digit_value c) 0 ds"

definition DecimalDigits :: "string \<Rightarrow> nat option" where
  "DecimalDigits s =
     (if s \<noteq> [] \<and> list_all (is_digit 10) s then Some (digits_value 10 s) else None)"

definition ExponentPart :: "string \<Rightarrow> int option" where
  "ExponentPart s =
     (case s of
        [] \<Rightarrow> Some 0
      | c # r \<Rightarrow>
          if c = CHR ''e'' \<or> c = CHR ''E'' then
            (case r of
               [] \<Rightarrow> None
             | d # r' \<Rightarrow>
                 if d = CHR ''+'' then map_option int (DecimalDigits r')
                 else if d = CHR ''-'' then map_option (\<lambda>n. - int n) (DecimalDigits r')
                 else map_option int (DecimalDigits r))
          else None)"

definition StrUnsignedDecimalLiteral :: "string \<Rightarrow> js_number" where
  "StrUnsignedDecimalLiteral s =
     (if s = ''Infinity'' then PosInfinity
      else
        let ip = takeWhile (is_digit 10) s;
            r = dropWhile (is_digit 10) s;
            fp = (case r of [] \<Rightarrow> [] | c # t \<Rightarrow> if c = CHR ''.'' then takeWhile (is_digit 10) t else []);
            r' = (case r of [] \<Rightarrow> [] | c # t \<Rightarrow> if c = CHR ''.'' then dropWhile (is_digit 10) t else r)
        in if ip = [] \<and> fp = [] then NaN
           else (case ExponentPart r' of
                   None \<Rightarrow> NaN
                 | Some e \<Rightarrow>
                     RoundMVResult (real (digits_value 10 (ip @ fp)) * 10 powi (e - int (length fp)))))"

fun negate :: "js_number \<Rightarrow> js_number" where
  "negate NaN = NaN"
| "negate PosInfinity = NegInfinity"
| "negate NegInfinity = PosInfinity"
| "negate (Finite x) = Finite (- x)"

definition StrDecimalLiteral :: "string \<Rightarrow> js_number" where
  "StrDecimalLiteral s =
     (case s of
        [] \<Rightarrow> NaN
      | c # r \<Rightarrow>
          if c = CHR ''+'' then StrUnsignedDecimalLiteral r
          else if c = CHR ''-'' then negate (StrUnsignedDecimalLiteral r)
          else StrUnsignedDecimalLiteral s)"

definition NonDecimalIntegerLiteral :: "string \<Rightarrow> js_number option" where
  "NonDecimalIntegerLiteral s =
     (case s of
        z # x # ds \<Rightarrow>
          if z = CHR ''0'' \<and> ds \<noteq> [] then
            (if (x = CHR ''x'' \<or> x = CHR ''X'') \<and> list_all (is_digit 16) ds
               then Some (RoundMVResult (real (digits_value 16 ds)))
             else if (x = CHR ''o'' \<or> x = CHR ''O'') \<and> list_all (is_digit 8) ds
               then Some (RoundMVResult (real (digits_value 8 ds)))
             else if (x = CHR ''b'' \<or> x = CHR ''B'') \<and> list_all (is_digit 2) ds
               then Some (RoundMVResult (real (digits_value 2 ds)))
             else None)
          else None
      | _ \<Rightarrow> None)"

text \<open>
  \<^verbatim>\<open>StringToNumber\<close> of ECMAScript: the string is trimmed; the empty string is 0; a
  numeric literal (decimal with optional sign, fraction and exponent, \<^verbatim>\<open>Infinity\<close>,
  or a hexadecimal, octal or binary integer) is its value, rounded; anything else
  is \<open>NaN\<close>.
\<close>

definition StringToNumber :: "string \<Rightarrow> js_number" where
  "StringToNumber s =
     (let t = rev (dropWhile js_space (rev (dropWhile js_space s)))
      in if t = [] then Finite 0
         else (case NonDecimalIntegerLiteral t of
                 Some n \<Rightarrow> n
               | None \<Rightarrow> StrDecimalLiteral t))"

fun ToNumber :: "js_value \<Rightarrow> js_number" where
  "ToNumber (VBoolean b) = Finite (if b then 1 else 0)"
| "ToNumber (VNumber n) = n"
| "ToNumber (VString s) = StringToNumber s"

text \<open>
  \<^verbatim>\<open>value != b\<close> for a boolean \<open>b\<close>: loose equality turns the boolean into a number
  (\<^verbatim>\<open>true\<close> is 1, \<^verbatim>\<open>false\<close> is 0), then a string or boolean on the other side into
  a number, and compares numbers; \<open>NaN\<close> equals nothing.
\<close>

definition Number_equal :: "js_number \<Rightarrow> js_number \<Rightarrow> bool" where
  "Number_equal x y = (x \<noteq> NaN \<and> y \<noteq> NaN \<and> x = y)"

definition loosely_unequal :: "js_value \<Rightarrow> bool \<Rightarrow> bool" where
  "loosely_unequal v b = (\<not> Number_equal (ToNumber v) (ToNumber (VBoolean b)))"

subsection \<open>ClassInfo, Set and the part\<close>

text \<open>
  A \<^verbatim>\<open>ClassInfo\<close> is an ordinary object with the properties its interface declares,
  kept as the list of its own properties in the order \<^verbatim>\<open>for (const name in classInfo)\<close>
  visits them; the keys of an object are distinct. Its prototype is
  \<^verbatim>\<open>Object.prototype\<close>, whose properties are not enumerable: \<^verbatim>\<open>for-in\<close> does not visit
  them, but \<^verbatim>\<open>name in classInfo\<close> (line 117) walks the prototype chain and holds for
  them as it does for the own keys.
\<close>

type_synonym ClassInfo = "(string \<times> js_value) list"

definition Object_prototype :: "string list" where
  "Object_prototype =
     [''constructor'', ''hasOwnProperty'', ''isPrototypeOf'', ''propertyIsEnumerable'',
      ''toLocaleString'', ''toString'', ''valueOf'', ''__proto__'',
      ''__defineGetter__'', ''__defineSetter__'', ''__lookupGetter__'', ''__lookupSetter__'']"

definition has_key :: "string \<Rightarrow> ClassInfo \<Rightarrow> bool" where
  "has_key nm classInfo = (nm \<in> set (map fst classInfo) \<or> nm \<in> set Object_prototype)"

text \<open>
  A \<^verbatim>\<open>Set<string>\<close> is the list of its members in insertion order, which is the order
  \<^verbatim>\<open>forEach\<close> visits them.
\<close>

definition Set_has :: "string \<Rightarrow> string list \<Rightarrow> bool" where
  "Set_has x s = (x \<in> set s)"

definition Set_add :: "string \<Rightarrow> string list \<Rightarrow> string list" where
  "Set_add x s = (if x \<in> set s then s else s @ [x])"

definition Set_delete :: "string \<Rightarrow> string list \<Rightarrow> string list" where
  "Set_delete x s = removeAll x s"

text \<open>
  Modelled from the spec: the parts of the host library (\<^verbatim>\<open>lit-html.js\<close> is imported,
  not part of the sources). A part is an \<^verbatim>\<open>AttributePart\<close>, a \<^verbatim>\<open>PropertyPart\<close> (which
  extends \<^verbatim>\<open>AttributePart\<close>) or a part of another class; the first two belong to a
  committer that knows the attribute's name and how many parts the attribute holds.
\<close>

record AttributeCommitter =
  name :: string
  parts_length :: nat

datatype Part = AttributePart AttributeCommitter | PropertyPart AttributeCommitter | OtherPart

fun instanceof_AttributePart :: "Part \<Rightarrow> bool" where
  "instanceof_AttributePart (AttributePart c) = True"
| "instanceof_AttributePart (PropertyPart c) = True"
| "instanceof_AttributePart OtherPart = False"

fun instanceof_PropertyPart :: "Part \<Rightarrow> bool" where
  "instanceof_PropertyPart (PropertyPart c) = True"
| "instanceof_PropertyPart p = False"

fun committer :: "Part \<Rightarrow> AttributeCommitter option" where
  "committer (AttributePart c) = Some c"
| "committer (PropertyPart c) = Some c"
| "committer OtherPart = None"

subsection \<open>The world of one binding site\<close>

text \<open>
  \<open>calls\<close> lists, in order, the calls made on the class list in use
  (\<^verbatim>\<open>classList.add\<close>, \<^verbatim>\<open>classList.remove\<close>) and on the host (\<^verbatim>\<open>part.setValue\<close>,
  \<^verbatim>\<open>element.setAttribute\<close>). \<open>previousClassesCache\<close> is the entry of this part in the
  \<^verbatim>\<open>WeakMap\<close>: \<open>None\<close> while \<^verbatim>\<open>get(part)\<close> is \<^verbatim>\<open>undefined\<close>.
\<close>

datatype call = Add string | Remove string | SetValue string | SetAttribute string

record World =
  class_attribute :: "string option"
  has_classList :: bool
  previousClassesCache :: "string list option"
  calls :: "call list"

text \<open>
  Modelled from the spec: \<^verbatim>\<open>part.setValue(string)\<close> writes the final attribute string,
  as \<^verbatim>\<open>element.setAttribute('class', string)\<close> does.
\<close>

definition setValue :: "string \<Rightarrow> World \<Rightarrow> World" where
  "setValue v w = w\<lparr>class_attribute := Some v, calls := calls w @ [SetValue v]\<rparr>"

definition setAttribute :: "string \<Rightarrow> World \<Rightarrow> World" where
  "setAttribute v w = w\<lparr>class_attribute := Some v, calls := calls w @ [SetAttribute v]\<rparr>"

text \<open>
  Modelled from the spec: the native \<^verbatim>\<open>element.classList\<close>, a live token set bound to
  the class attribute. Following the DOM standard, the token set is the attribute
  split on ASCII white space without repetitions, and \<^verbatim>\<open>add\<close> and \<^verbatim>\<open>remove\<close> write
  the tokens back joined by single spaces. The DOM rejects an empty token and a token
  with white space by an exception; a ClassInfo's keys are class names, and the
  model does not raise.
\<close>

definition ascii_whitespace :: "char \<Rightarrow> bool" where
  "ascii_whitespace c = (c \<in> set [CHR 0x09, CHR 0x0A, CHR 0x0C, CHR 0x0D, CHR 0x20])"

fun split_on_whitespace :: "string \<Rightarrow> string \<Rightarrow> string list" where
  "split_on_whitespace acc [] = (if acc = [] then [] else [rev acc])"
| "split_on_whitespace acc (c # cs) =
     (if ascii_whitespace c
      then (if acc = [] then split_on_whitespace [] cs else rev acc # split_on_whitespace [] cs)
      else split_on_whitespace (c # acc) cs)"

definition ordered_set_parser :: "string \<Rightarrow> string list" where
  "ordered_set_parser s = fold Set_add (split_on_whitespace [] s) []"

fun ordered_set_serializer :: "string list \<Rightarrow> string" where
  "ordered_set_serializer [] = []"
| "ordered_set_serializer [t] = t"
| "ordered_set_serializer (t # ts) = t @ CHR 0x20 # ordered_set_serializer ts"

definition token_set :: "string option \<Rightarrow> string list" where
  "token_set a = (case a of None \<Rightarrow> [] | Some s \<Rightarrow> ordered_set_parser s)"

definition update_steps :: "string option \<Rightarrow> string list \<Rightarrow> string option" where
  "update_steps a tokens =
     (if a = None \<and> tokens = [] then None else Some (ordered_set_serializer tokens))"

definition DOMTokenList_add :: "string \<Rightarrow> World \<Rightarrow> World" where
  "DOMTokenList_add cls w =
     w\<lparr>class_attribute := update_steps (class_attribute w) (Set_add cls (token_set (class_attribute w)))\<rparr>"

definition DOMTokenList_remove :: "string \<Rightarrow> World \<Rightarrow> World" where
  "DOMTokenList_remove cls w =
     w\<lparr>class_attribute := update_steps (class_attribute w) (Set_delete cls (token_set (class_attribute w)))\<rparr>"

subsection \<open>The ClassList shim\<close>

text \<open>
  The class \<^verbatim>\<open>ClassList\<close> (lines 24 to 67 of the source). \<open>Element\<close> is the reference
  to the committer's element; what the directive reads and writes of it is in the
  world. The constructor takes an element or an \<^verbatim>\<open>AttributePart\<close>;
  \<^verbatim>\<open>elementOrPart instanceof AttributePart\<close> holds for the second.
\<close>

datatype Element = Element

datatype ElementOrPart = AnElement Element | APart Part

record ClassList =
  element :: "Element option"
  part :: "Part option"
  classes :: "string list"
  changed :: bool

text \<open>
  \<^verbatim>\<open>''.split(/\s+/)\<close> is \<^verbatim>\<open>['']\<close>, and white space at either end of the string leaves
  an empty string at that end of the result.
\<close>

fun split_regex :: "bool \<Rightarrow> string \<Rightarrow> string \<Rightarrow> string list" where
  "split_regex in_match acc [] = [rev acc]"
| "split_regex in_match acc (c # cs) =
     (if js_space c
      then (if in_match then split_regex True acc cs else rev acc # split_regex True [] cs)
      else split_regex False (c # acc) cs)"

definition getAttribute :: "World \<Rightarrow> string option" where
  "getAttribute w = class_attribute w"

fun ClassList_new :: "ElementOrPart \<Rightarrow> World \<Rightarrow> ClassList" where
  "ClassList_new (APart p) w =
     \<lparr>element = None, part = Some p, classes = [], changed = True\<rparr>"
| "ClassList_new (AnElement e) w =
     \<lparr>element = Some e, part = None,
      classes = fold Set_add
        (split_regex False [] (case getAttribute w of None \<Rightarrow> [] | Some s \<Rightarrow> if s = [] then [] else s)) [],
      changed = False\<rparr>"

definition ClassList_add :: "string \<Rightarrow> ClassList \<Rightarrow> ClassList" where
  "ClassList_add cls l = l\<lparr>classes := Set_add cls (classes l), changed := True\<rparr>"

definition ClassList_remove :: "string \<Rightarrow> ClassList \<Rightarrow> ClassList" where
  "ClassList_remove cls l = l\<lparr>classes := Set_delete cls (classes l), changed := True\<rparr>"

definition classString :: "string list \<Rightarrow> string" where
  "classString cs = concat (map (\<lambda>cls. cls @ [CHR 0x20]) cs)"

definition ClassList_commit :: "ClassList \<Rightarrow> World \<Rightarrow> World" where
  "ClassList_commit l w =
     (if changed l
      then (if element l \<noteq> None then setAttribute (classString (classes l)) w
            else setValue (classString (classes l)) w)
      else w)"

subsection \<open>The directive\<close>

text \<open>
  \<^verbatim>\<open>classList\<close> is the element's \<^verbatim>\<open>DOMTokenList\<close> or a \<^verbatim>\<open>ClassList\<close>. A call on it is
  recorded in \<open>calls\<close>; on the native list it changes the attribute at once, on the
  shim it changes the shim.
\<close>

datatype Target = DOMTokenList | Shim ClassList

fun classList_add :: "string \<Rightarrow> Target \<times> World \<Rightarrow> Target \<times> World" where
  "classList_add cls (DOMTokenList, w) = (DOMTokenList, DOMTokenList_add cls (w\<lparr>calls := calls w @ [Add cls]\<rparr>))"
| "classList_add cls (Shim l, w) = (Shim (ClassList_add cls l), w\<lparr>calls := calls w @ [Add cls]\<rparr>)"

fun classList_remove :: "string \<Rightarrow> Target \<times> World \<Rightarrow> Target \<times> World" where
  "classList_remove cls (DOMTokenList, w) = (DOMTokenList, DOMTokenList_remove cls (w\<lparr>calls := calls w @ [Remove cls]\<rparr>))"
| "classList_remove cls (Shim l, w) = (Shim (ClassList_remove cls l), w\<lparr>calls := calls w @ [Remove cls]\<rparr>)"

text \<open>
  The first loop (lines 116 to 121), \<^verbatim>\<open>previousClasses.forEach\<close>: the names are those of the set when
  the loop starts; a name for which \<^verbatim>\<open>name in classInfo\<close> fails (it is neither an own key
  nor inherited) is removed from the class list and deleted from the set (deleting
  the member being visited does not disturb the iteration).
\<close>

fun remove_old :: "ClassInfo \<Rightarrow> string list \<Rightarrow> Target \<times> string list \<times> World \<Rightarrow> Target \<times> string list \<times> World" where
  "remove_old classInfo [] st = st"
| "remove_old classInfo (nm # names) (classList, previousClasses, w) =
     remove_old classInfo names
       (if \<not> has_key nm classInfo
        then (case classList_remove nm (classList, w) of
                (classList', w') \<Rightarrow> (classList', Set_delete nm previousClasses, w'))
        else (classList, previousClasses, w))"

text \<open>
  The second loop (lines 124 to 137), \<^verbatim>\<open>for (const name in classInfo)\<close>, with
  \<^verbatim>\<open>value = classInfo[name]\<close>.
\<close>

fun add_or_remove :: "ClassInfo \<Rightarrow> Target \<times> string list \<times> World \<Rightarrow> Target \<times> string list \<times> World" where
  "add_or_remove [] st = st"
| "add_or_remove ((nm, v) # rest) (classList, previousClasses, w) =
     add_or_remove rest
       (if loosely_unequal v (Set_has nm previousClasses)
        then (if ToBoolean v
              then (case classList_add nm (classList, w) of
                      (classList', w') \<Rightarrow> (classList', Set_add nm previousClasses, w'))
              else (case classList_remove nm (classList, w) of
                      (classList', w') \<Rightarrow> (classList', Set_delete nm previousClasses, w')))
        else (classList, previousClasses, w))"

datatype error = UsageError

text \<open>
  \<^verbatim>\<open>classMap(classInfo)(part)\<close> (lines 88 to 143). \<open>unsupported\<close> is the condition of
  the \<^verbatim>\<open>throw\<close> (lines 89 and 90), which reads the committer only of a part that is an
  \<^verbatim>\<open>AttributePart\<close>; \<open>initial_classList\<close> is the choice of the class list and of the
  set (lines 98 to 110), where both branches build the shim from the part. The set
  the loops change is the one stored in the cache (on the first render the new empty
  set is stored before the loops run), so the cache holds the set as the loops leave
  it.
\<close>

definition unsupported :: "Part \<Rightarrow> bool" where
  "unsupported p =
     (\<not> instanceof_AttributePart p \<or> instanceof_PropertyPart p \<or>
      (case committer p of
         None \<Rightarrow> True
       | Some c \<Rightarrow> name c \<noteq> ''class'' \<or> parts_length c > 1))"

definition initial_classList :: "Part \<Rightarrow> World \<Rightarrow> Target \<times> string list" where
  "initial_classList p w =
     (case previousClassesCache w of
        None \<Rightarrow> (Shim (ClassList_new (APart p) w), [])
      | Some previousClasses \<Rightarrow>
          (if has_classList w then DOMTokenList else Shim (ClassList_new (APart p) w),
           previousClasses))"

definition classMap :: "ClassInfo \<Rightarrow> Part \<Rightarrow> World \<Rightarrow> (error + unit) \<times> World" where
  "classMap classInfo p w =
     (if unsupported p then (Inl UsageError, w)
      else
        (case initial_classList p w of
           (classList, previousClasses) \<Rightarrow>
             (case add_or_remove classInfo
                     (remove_old classInfo previousClasses (classList, previousClasses, w)) of
                (classList', previousClasses', w') \<Rightarrow>
                  (Inr (),
                   (case classList' of
                      Shim l \<Rightarrow> ClassList_commit l w'
                    | DOMTokenList \<Rightarrow> w')\<lparr>previousClassesCache := Some previousClasses'\<rparr>))))"

text \<open>A site is rendered again and again: the applications of a list of ClassInfos, in order.\<close>

fun render_all :: "ClassInfo list \<Rightarrow> Part \<Rightarrow> World \<Rightarrow> (error + unit) \<times> World" where
  "render_all [] p w = (Inr (), w)"
| "render_all (classInfo # rest) p w =
     (case classMap classInfo p w of
        (Inl e, w') \<Rightarrow> (Inl e, w')
      | (Inr u, w') \<Rightarrow> render_all rest p w')"

text \<open>The components of the state the two loops pass along.\<close>

definition prev_of :: "Target \<times> string list \<times> World \<Rightarrow> string list" where
  "prev_of st = fst (snd st)"

definition world_of :: "Target \<times> string list \<times> World \<Rightarrow> World" where
  "world_of st = snd (snd st)"

text \<open>A part of the supported shape, and worlds to run the directive in.\<close>

definition class_part :: Part where
  "class_part = AttributePart \<lparr>name = ''class'', parts_length = 1\<rparr>"

definition fresh_world :: "string option \<Rightarrow> bool \<Rightarrow> World" where
  "fresh_world a native =
     \<lparr>class_attribute = a, has_classList = native, previousClassesCache = None, calls = []\<rparr>"

definition rendered_world :: "string option \<Rightarrow> bool \<Rightarrow> string list \<Rightarrow> World" where
  "rendered_world a native managed =
     \<lparr>class_attribute = a, has_classList = native, previousClassesCache = Some managed, calls = []\<rparr>"

text \<open>
  A class name as the DOM accepts it: not empty and free of ASCII white space. The
  calls \<^verbatim>\<open>classList.add\<close> and \<^verbatim>\<open>classList.remove\<close> are the class calls. A value
  of a ClassInfo may be a boolean.
\<close>

definition valid_token :: "string \<Rightarrow> bool" where
  "valid_token t = (t \<noteq> [] \<and> \<not> list_ex ascii_whitespace t)"

fun is_class_call :: "call \<Rightarrow> bool" where
  "is_class_call (Add cls) = True"
| "is_class_call (Remove cls) = True"
| "is_class_call (SetValue v) = False"
| "is_class_call (SetAttribute v) = False"

fun is_boolean :: "js_value \<Rightarrow> bool" where
  "is_boolean (VBoolean b) = True"
| "is_boolean v = False"

section \<open>Properties\<close>

subsection \<open>Sets and the shape of the part\<close>

lemma set_Set_add [simp]: "set (Set_add x s) = insert x (set s)"
  by (auto simp: Set_add_def)

lemma set_Set_delete [simp]: "set (Set_delete x s) = set s - {x}"
  by (simp add: Set_delete_def)

lemma distinct_Set_add [simp]: "distinct s \<Longrightarrow> distinct (Set_add x s)"
  by (simp add: Set_add_def)

lemma distinct_Set_delete [simp]: "distinct s \<Longrightarrow> distinct (Set_delete x s)"
  by (simp add: Set_delete_def distinct_removeAll)

lemma unsupported_iff:
  "unsupported p =
     (case p of AttributePart c \<Rightarrow> name c \<noteq> ''class'' \<or> 1 < parts_length c
      | PropertyPart c \<Rightarrow> True | OtherPart \<Rightarrow> True)"
  by (cases p) (simp_all add: unsupported_def)

lemma class_part_supported [simp]: "\<not> unsupported class_part"
  by (simp add: unsupported_def class_part_def)

lemmas run_defs =
  classMap_def initial_classList_def unsupported_def class_part_def fresh_world_def rendered_world_def
  loosely_unequal_def Number_equal_def Set_has_def Set_add_def Set_delete_def has_key_def Object_prototype_def
  ClassList_commit_def ClassList_add_def ClassList_remove_def setValue_def setAttribute_def
  classString_def DOMTokenList_add_def DOMTokenList_remove_def update_steps_def token_set_def
  ordered_set_parser_def ascii_whitespace_def getAttribute_def js_space_def

subsection \<open>What the two loops do to the set and to the list of calls\<close>

lemma classList_remove_calls [simp]:
  "calls (snd (classList_remove nm (t, w))) = calls w @ [Remove nm]"
  by (cases t) (simp_all add: DOMTokenList_remove_def)

lemma classList_add_calls [simp]:
  "calls (snd (classList_add nm (t, w))) = calls w @ [Add nm]"
  by (cases t) (simp_all add: DOMTokenList_add_def)

lemma remove_old_prev:
  "prev_of (remove_old ci names (t, pc, w)) = filter (\<lambda>n. n \<notin> set names \<or> has_key n ci) pc"
proof (induction names arbitrary: t pc w)
  case Nil
  then show ?case by (simp add: prev_of_def)
next
  case (Cons nm names)
  show ?case
  proof (cases "has_key nm ci")
    case True
    then show ?thesis using Cons.IH[of t pc w] by (auto intro: filter_cong)
  next
    case False
    obtain t' w' where s: "classList_remove nm (t, w) = (t', w')"
      by (cases "classList_remove nm (t, w)")
    have "filter (\<lambda>n. n \<notin> set names \<or> has_key n ci) (Set_delete nm pc)
        = filter (\<lambda>n. n \<notin> set (nm # names) \<or> has_key n ci) pc"
      using False by (induction pc) (auto simp: Set_delete_def)
    then show ?thesis using False s Cons.IH[of t' "Set_delete nm pc" w'] by simp
  qed
qed

lemma remove_old_calls:
  "calls (world_of (remove_old ci names (t, pc, w))) =
     calls w @ map Remove (filter (\<lambda>n. \<not> has_key n ci) names)"
proof (induction names arbitrary: t pc w)
  case Nil
  then show ?case by (simp add: world_of_def)
next
  case (Cons nm names)
  show ?case
  proof (cases "has_key nm ci")
    case True
    then show ?thesis using Cons.IH[of t pc w] by simp
  next
    case False
    obtain t' w' where s: "classList_remove nm (t, w) = (t', w')"
      by (cases "classList_remove nm (t, w)")
    have "calls w' = calls w @ [Remove nm]"
      using classList_remove_calls[of nm t w] s by simp
    then show ?thesis using False s Cons.IH[of t' "Set_delete nm pc" w'] by simp
  qed
qed

lemma add_or_remove_prev_subset:
  "set (prev_of (add_or_remove ci (t, pc, w))) \<subseteq> set pc \<union> fst ` set ci"
proof (induction ci arbitrary: t pc w)
  case Nil
  then show ?case by (simp add: prev_of_def)
next
  case (Cons a ci)
  obtain nm v where a: "a = (nm, v)" by (cases a)
  obtain t1 w1 where s1: "classList_add nm (t, w) = (t1, w1)"
    by (cases "classList_add nm (t, w)")
  obtain t2 w2 where s2: "classList_remove nm (t, w) = (t2, w2)"
    by (cases "classList_remove nm (t, w)")
  show ?case
    using Cons.IH[of t pc w] Cons.IH[of t1 "Set_add nm pc" w1] Cons.IH[of t2 "Set_delete nm pc" w2]
    by (auto simp: a s1 s2)
qed

subsection \<open>The native token set\<close>

lemma fold_Set_add_append:
  "distinct (acc @ xs) \<Longrightarrow> fold Set_add xs acc = acc @ xs"
  by (induction xs arbitrary: acc) (auto simp: Set_add_def)

lemma set_fold_Set_add: "set (fold Set_add xs acc) = set acc \<union> set xs"
  by (induction xs arbitrary: acc) auto

lemma distinct_fold_Set_add: "distinct acc \<Longrightarrow> distinct (fold Set_add xs acc)"
  by (induction xs arbitrary: acc) auto

lemma split_on_whitespace_valid:
  "\<not> list_ex ascii_whitespace acc \<Longrightarrow> t \<in> set (split_on_whitespace acc s) \<Longrightarrow> valid_token t"
proof (induction acc s rule: split_on_whitespace.induct)
  case (1 acc)
  then show ?case by (simp add: valid_token_def list_ex_iff split: if_splits)
next
  case (2 acc c cs)
  show ?case
  proof (cases "ascii_whitespace c")
    case True
    then show ?thesis using 2 by (auto simp: valid_token_def list_ex_iff split: if_splits)
  next
    case False
    then show ?thesis using 2 by (simp add: list_ex_iff)
  qed
qed

lemma split_on_whitespace_token:
  "\<not> list_ex ascii_whitespace t \<Longrightarrow>
   split_on_whitespace acc (t @ s) = split_on_whitespace (rev t @ acc) s"
  by (induction t arbitrary: acc) simp_all

lemma split_serializer:
  "list_all valid_token ts \<Longrightarrow> split_on_whitespace [] (ordered_set_serializer ts) = ts"
proof (induction ts rule: ordered_set_serializer.induct)
  case 1
  then show ?case by simp
next
  case (2 t)
  then show ?case
    using split_on_whitespace_token[of t "[]" "[]"] by (simp add: valid_token_def)
next
  case (3 t u ts)
  then have t: "t \<noteq> []" "\<not> list_ex ascii_whitespace t" by (simp_all add: valid_token_def)
  have "split_on_whitespace [] (t @ CHR 0x20 # ordered_set_serializer (u # ts))
      = split_on_whitespace (rev t) (CHR 0x20 # ordered_set_serializer (u # ts))"
    using split_on_whitespace_token[OF t(2), of "[]"] by simp
  also have "\<dots> = t # split_on_whitespace [] (ordered_set_serializer (u # ts))"
    using t(1) by (simp add: ascii_whitespace_def)
  finally show ?case using 3 by simp
qed

lemma token_set_valid: "t \<in> set (token_set a) \<Longrightarrow> valid_token t"
  using split_on_whitespace_valid[of "[]" t]
  by (cases a) (simp_all add: token_set_def ordered_set_parser_def set_fold_Set_add)

lemma token_set_distinct [simp]: "distinct (token_set a)"
  by (cases a) (simp_all add: token_set_def ordered_set_parser_def distinct_fold_Set_add)

lemma token_set_update_steps:
  "distinct ts \<Longrightarrow> list_all valid_token ts \<Longrightarrow> token_set (update_steps a ts) = ts"
  using fold_Set_add_append[of "[]" ts]
  by (simp add: token_set_def update_steps_def ordered_set_parser_def split_serializer)

lemma token_set_add:
  "valid_token cls \<Longrightarrow>
   token_set (class_attribute (DOMTokenList_add cls w)) = Set_add cls (token_set (class_attribute w))"
  using token_set_valid[of _ "class_attribute w"]
  by (simp add: DOMTokenList_add_def token_set_update_steps list_all_iff Set_add_def)

lemma token_set_remove:
  "token_set (class_attribute (DOMTokenList_remove cls w)) = Set_delete cls (token_set (class_attribute w))"
  using token_set_valid[of _ "class_attribute w"]
  by (simp add: DOMTokenList_remove_def token_set_update_steps list_all_iff)

lemma DOMTokenList_remove_frame [simp]:
  "has_classList (DOMTokenList_remove cls w) = has_classList w"
  "previousClassesCache (DOMTokenList_remove cls w) = previousClassesCache w"
  "calls (DOMTokenList_remove cls w) = calls w"
  by (simp_all add: DOMTokenList_remove_def)

lemma DOMTokenList_add_frame [simp]:
  "has_classList (DOMTokenList_add cls w) = has_classList w"
  "previousClassesCache (DOMTokenList_add cls w) = previousClassesCache w"
  "calls (DOMTokenList_add cls w) = calls w"
  by (simp_all add: DOMTokenList_add_def)

lemma token_set_remove_logged [simp]:
  "token_set (class_attribute (DOMTokenList_remove cls (w\<lparr>calls := cs\<rparr>))) =
     Set_delete cls (token_set (class_attribute w))"
  using token_set_remove[of cls "w\<lparr>calls := cs\<rparr>"] by simp

lemma token_set_add_logged:
  "valid_token cls \<Longrightarrow>
   token_set (class_attribute (DOMTokenList_add cls (w\<lparr>calls := cs\<rparr>))) =
     Set_add cls (token_set (class_attribute w))"
  using token_set_add[of cls "w\<lparr>calls := cs\<rparr>"] by simp

subsection \<open>The loops on the shim and on the native list\<close>

lemma filter_Set_delete:
  "\<not> has_key nm ci \<Longrightarrow>
   filter (\<lambda>n. n \<notin> set names \<or> has_key n ci) (Set_delete nm xs) =
     filter (\<lambda>n. n \<notin> set (nm # names) \<or> has_key n ci) xs"
  by (induction xs) (auto simp: Set_delete_def)

lemma filter_key_Cons:
  "has_key nm ci \<Longrightarrow>
   filter (\<lambda>n. n \<notin> set names \<or> has_key n ci) xs =
     filter (\<lambda>n. n \<notin> set (nm # names) \<or> has_key n ci) xs"
  by (auto intro: filter_cong)

lemma remove_old_native:
  "\<exists>w'. remove_old ci names (DOMTokenList, pc, w) =
          (DOMTokenList, filter (\<lambda>n. n \<notin> set names \<or> has_key n ci) pc, w') \<and>
        has_classList w' = has_classList w \<and>
        previousClassesCache w' = previousClassesCache w \<and>
        calls w' = calls w @ map Remove (filter (\<lambda>n. \<not> has_key n ci) names) \<and>
        token_set (class_attribute w') =
          filter (\<lambda>n. n \<notin> set names \<or> has_key n ci) (token_set (class_attribute w))"
proof (induction names arbitrary: pc w)
  case Nil
  then show ?case by simp
next
  case (Cons nm names)
  show ?case
  proof (cases "has_key nm ci")
    case True
    then show ?thesis
      using Cons.IH[of pc w] filter_key_Cons[OF True, of names] by simp
  next
    case False
    let ?w1 = "DOMTokenList_remove nm (w\<lparr>calls := calls w @ [Remove nm]\<rparr>)"
    obtain w' where ih:
      "remove_old ci names (DOMTokenList, Set_delete nm pc, ?w1) =
          (DOMTokenList, filter (\<lambda>n. n \<notin> set names \<or> has_key n ci) (Set_delete nm pc), w')"
      "has_classList w' = has_classList ?w1"
      "previousClassesCache w' = previousClassesCache ?w1"
      "calls w' = calls ?w1 @ map Remove (filter (\<lambda>n. \<not> has_key n ci) names)"
      "token_set (class_attribute w') =
          filter (\<lambda>n. n \<notin> set names \<or> has_key n ci) (token_set (class_attribute ?w1))"
      using Cons.IH[of "Set_delete nm pc" ?w1] by blast
    have "remove_old ci (nm # names) (DOMTokenList, pc, w) =
          (DOMTokenList, filter (\<lambda>n. n \<notin> set (nm # names) \<or> has_key n ci) pc, w')"
      using False ih(1) filter_Set_delete[OF False, of names pc] by simp
    moreover have "has_classList w' = has_classList w" using ih(2) by simp
    moreover have "previousClassesCache w' = previousClassesCache w" using ih(3) by simp
    moreover have "calls w' = calls w @ map Remove (filter (\<lambda>n. \<not> has_key n ci) (nm # names))"
      using False ih(4) by simp
    moreover have "token_set (class_attribute w') =
          filter (\<lambda>n. n \<notin> set (nm # names) \<or> has_key n ci) (token_set (class_attribute w))"
      using ih(5) filter_Set_delete[OF False, of names "token_set (class_attribute w)"] by simp
    ultimately show ?thesis by blast
  qed
qed

lemma remove_old_Shim:
  "remove_old ci names (Shim l, pc, w) =
     (Shim (l\<lparr>classes := filter (\<lambda>n. n \<notin> set names \<or> has_key n ci) (classes l),
              changed := changed l \<or> filter (\<lambda>n. \<not> has_key n ci) names \<noteq> []\<rparr>),
      filter (\<lambda>n. n \<notin> set names \<or> has_key n ci) pc,
      w\<lparr>calls := calls w @ map Remove (filter (\<lambda>n. \<not> has_key n ci) names)\<rparr>)"
proof (induction names arbitrary: l pc w)
  case Nil
  then show ?case by simp
next
  case (Cons nm names)
  have del: "\<And>xs. \<not> has_key nm ci \<Longrightarrow>
      filter (\<lambda>n. n \<notin> set names \<or> has_key n ci) (Set_delete nm xs)
        = filter (\<lambda>n. n \<notin> set (nm # names) \<or> has_key n ci) xs"
  proof -
    fix xs assume "\<not> has_key nm ci"
    then show "filter (\<lambda>n. n \<notin> set names \<or> has_key n ci) (Set_delete nm xs)
        = filter (\<lambda>n. n \<notin> set (nm # names) \<or> has_key n ci) xs"
      by (induction xs) (auto simp: Set_delete_def)
  qed
  show ?case
  proof (cases "has_key nm ci")
    case True
    have "filter (\<lambda>n. n \<notin> set names \<or> has_key n ci) xs
        = filter (\<lambda>n. n \<notin> set (nm # names) \<or> has_key n ci) xs" for xs
      using True by (auto intro: filter_cong)
    then show ?thesis using True Cons.IH[of l pc w] by simp
  next
    case False
    then show ?thesis
      using Cons.IH[of "ClassList_remove nm l" "Set_delete nm pc" "w\<lparr>calls := calls w @ [Remove nm]\<rparr>"]
            del[OF False]
      by (simp add: ClassList_remove_def)
  qed
qed

lemma add_or_remove_Shim:
  "\<exists>ops cs' pc'.
     (\<forall>w. add_or_remove ci (Shim l, pc, w) =
        (Shim (l\<lparr>classes := cs', changed := changed l \<or> ops \<noteq> []\<rparr>), pc', w\<lparr>calls := calls w @ ops\<rparr>)) \<and>
     (classes l = pc \<longrightarrow> cs' = pc') \<and> list_all is_class_call ops"
proof (induction ci arbitrary: l pc)
  case Nil
  have "\<forall>w. add_or_remove [] (Shim l, pc, w) =
        (Shim (l\<lparr>classes := classes l, changed := changed l \<or> ([]::call list) \<noteq> []\<rparr>), pc, w\<lparr>calls := calls w @ []\<rparr>)"
    by simp
  moreover have "list_all is_class_call []" by simp
  ultimately show ?case by blast
next
  case (Cons a ci)
  obtain nm v where a: "a = (nm, v)" by (cases a)
  show ?case
  proof (cases "loosely_unequal v (Set_has nm pc)")
    case False
    then show ?thesis using Cons.IH[of l pc] by (simp add: a)
  next
    case True
    show ?thesis
    proof (cases "ToBoolean v")
      case t: True
      obtain ops cs' pc' where ih:
        "\<forall>w. add_or_remove ci (Shim (ClassList_add nm l), Set_add nm pc, w) =
           (Shim ((ClassList_add nm l)\<lparr>classes := cs', changed := changed (ClassList_add nm l) \<or> ops \<noteq> []\<rparr>),
            pc', w\<lparr>calls := calls w @ ops\<rparr>)"
        "classes (ClassList_add nm l) = Set_add nm pc \<longrightarrow> cs' = pc'" "list_all is_class_call ops"
        using Cons.IH[of "ClassList_add nm l" "Set_add nm pc"] by blast
      have "\<forall>w. add_or_remove (a # ci) (Shim l, pc, w) =
           (Shim (l\<lparr>classes := cs', changed := changed l \<or> Add nm # ops \<noteq> []\<rparr>),
            pc', w\<lparr>calls := calls w @ Add nm # ops\<rparr>)"
        using True t ih(1) by (simp add: a ClassList_add_def)
      moreover have "classes l = pc \<longrightarrow> cs' = pc'" using ih(2) by (simp add: ClassList_add_def)
      moreover have "list_all is_class_call (Add nm # ops)" using ih(3) by simp
      ultimately show ?thesis by blast
    next
      case f: False
      obtain ops cs' pc' where ih:
        "\<forall>w. add_or_remove ci (Shim (ClassList_remove nm l), Set_delete nm pc, w) =
           (Shim ((ClassList_remove nm l)\<lparr>classes := cs', changed := changed (ClassList_remove nm l) \<or> ops \<noteq> []\<rparr>),
            pc', w\<lparr>calls := calls w @ ops\<rparr>)"
        "classes (ClassList_remove nm l) = Set_delete nm pc \<longrightarrow> cs' = pc'" "list_all is_class_call ops"
        using Cons.IH[of "ClassList_remove nm l" "Set_delete nm pc"] by blast
      have "\<forall>w. add_or_remove (a # ci) (Shim l, pc, w) =
           (Shim (l\<lparr>classes := cs', changed := changed l \<or> Remove nm # ops \<noteq> []\<rparr>),
            pc', w\<lparr>calls := calls w @ Remove nm # ops\<rparr>)"
        using True f ih(1) by (simp add: a ClassList_remove_def)
      moreover have "classes l = pc \<longrightarrow> cs' = pc'" using ih(2) by (simp add: ClassList_remove_def)
      moreover have "list_all is_class_call (Remove nm # ops)" using ih(3) by simp
      ultimately show ?thesis by blast
    qed
  qed
qed

lemma add_or_remove_native:
  "list_all valid_token (map fst ci) \<Longrightarrow>
   \<exists>pc' w' ops.
     add_or_remove ci (DOMTokenList, pc, w) = (DOMTokenList, pc', w') \<and>
     has_classList w' = has_classList w \<and>
     previousClassesCache w' = previousClassesCache w \<and>
     calls w' = calls w @ ops \<and> list_all is_class_call ops \<and>
     (\<forall>x. x \<notin> fst ` set ci \<longrightarrow>
        (x \<in> set (token_set (class_attribute w'))) = (x \<in> set (token_set (class_attribute w))) \<and>
        Add x \<notin> set ops \<and> Remove x \<notin> set ops)"
proof (induction ci arbitrary: pc w)
  case Nil
  have "add_or_remove [] (DOMTokenList, pc, w) = (DOMTokenList, pc, w) \<and> calls w = calls w @ []"
    by simp
  moreover have "list_all is_class_call []" by simp
  ultimately show ?case by fastforce
next
  case (Cons a ci)
  obtain nm v where a: "a = (nm, v)" by (cases a)
  have valid: "valid_token nm" and rest: "list_all valid_token (map fst ci)"
    using Cons.prems by (simp_all add: a)
  show ?case
  proof (cases "loosely_unequal v (Set_has nm pc)")
    case False
    obtain pc' w' ops where ih:
      "add_or_remove ci (DOMTokenList, pc, w) = (DOMTokenList, pc', w')"
      "has_classList w' = has_classList w" "previousClassesCache w' = previousClassesCache w"
      "calls w' = calls w @ ops" "list_all is_class_call ops"
      "\<forall>x. x \<notin> fst ` set ci \<longrightarrow>
        (x \<in> set (token_set (class_attribute w'))) = (x \<in> set (token_set (class_attribute w))) \<and>
        Add x \<notin> set ops \<and> Remove x \<notin> set ops"
      using Cons.IH[OF rest, of pc w] by blast
    have "add_or_remove (a # ci) (DOMTokenList, pc, w) = (DOMTokenList, pc', w')"
      using False ih(1) by (simp add: a)
    moreover have "\<forall>x. x \<notin> fst ` set (a # ci) \<longrightarrow>
        (x \<in> set (token_set (class_attribute w'))) = (x \<in> set (token_set (class_attribute w))) \<and>
        Add x \<notin> set ops \<and> Remove x \<notin> set ops"
      using ih(6) by simp
    ultimately show ?thesis using ih(2-5) by blast
  next
    case True
    show ?thesis
    proof (cases "ToBoolean v")
      case t: True
      let ?w1 = "DOMTokenList_add nm (w\<lparr>calls := calls w @ [Add nm]\<rparr>)"
      obtain pc' w' ops where ih:
        "add_or_remove ci (DOMTokenList, Set_add nm pc, ?w1) = (DOMTokenList, pc', w')"
        "has_classList w' = has_classList ?w1" "previousClassesCache w' = previousClassesCache ?w1"
        "calls w' = calls ?w1 @ ops" "list_all is_class_call ops"
        "\<forall>x. x \<notin> fst ` set ci \<longrightarrow>
          (x \<in> set (token_set (class_attribute w'))) = (x \<in> set (token_set (class_attribute ?w1))) \<and>
          Add x \<notin> set ops \<and> Remove x \<notin> set ops"
        using Cons.IH[OF rest, of "Set_add nm pc" ?w1] by blast
      have tok: "token_set (class_attribute ?w1) = Set_add nm (token_set (class_attribute w))"
        using token_set_add_logged[OF valid] by simp
      have "add_or_remove (a # ci) (DOMTokenList, pc, w) = (DOMTokenList, pc', w')"
        using True t ih(1) by (simp add: a)
      moreover have "has_classList w' = has_classList w" using ih(2) by simp
      moreover have "previousClassesCache w' = previousClassesCache w" using ih(3) by simp
      moreover have "calls w' = calls w @ Add nm # ops" using ih(4) by simp
      moreover have "list_all is_class_call (Add nm # ops)" using ih(5) by simp
      moreover have "\<forall>x. x \<notin> fst ` set (a # ci) \<longrightarrow>
          (x \<in> set (token_set (class_attribute w'))) = (x \<in> set (token_set (class_attribute w))) \<and>
          Add x \<notin> set (Add nm # ops) \<and> Remove x \<notin> set (Add nm # ops)"
        using ih(6) tok by (auto simp: a)
      ultimately show ?thesis by blast
    next
      case f: False
      let ?w1 = "DOMTokenList_remove nm (w\<lparr>calls := calls w @ [Remove nm]\<rparr>)"
      obtain pc' w' ops where ih:
        "add_or_remove ci (DOMTokenList, Set_delete nm pc, ?w1) = (DOMTokenList, pc', w')"
        "has_classList w' = has_classList ?w1" "previousClassesCache w' = previousClassesCache ?w1"
        "calls w' = calls ?w1 @ ops" "list_all is_class_call ops"
        "\<forall>x. x \<notin> fst ` set ci \<longrightarrow>
          (x \<in> set (token_set (class_attribute w'))) = (x \<in> set (token_set (class_attribute ?w1))) \<and>
          Add x \<notin> set ops \<and> Remove x \<notin> set ops"
        using Cons.IH[OF rest, of "Set_delete nm pc" ?w1] by blast
      have "add_or_remove (a # ci) (DOMTokenList, pc, w) = (DOMTokenList, pc', w')"
        using True f ih(1) by (simp add: a)
      moreover have "has_classList w' = has_classList w" using ih(2) by simp
      moreover have "previousClassesCache w' = previousClassesCache w" using ih(3) by simp
      moreover have "calls w' = calls w @ Remove nm # ops" using ih(4) by simp
      moreover have "list_all is_class_call (Remove nm # ops)" using ih(5) by simp
      moreover have "\<forall>x. x \<notin> fst ` set (a # ci) \<longrightarrow>
          (x \<in> set (token_set (class_attribute w'))) = (x \<in> set (token_set (class_attribute w))) \<and>
          Add x \<notin> set (Remove nm # ops) \<and> Remove x \<notin> set (Remove nm # ops)"
        using ih(6) by (auto simp: a)
      ultimately show ?thesis by blast
    qed
  qed
qed

lemma add_or_remove_other:
  "k \<notin> fst ` set ci \<Longrightarrow>
   (k \<in> set (prev_of (add_or_remove ci (t, pc, w)))) = (k \<in> set pc)"
proof (induction ci arbitrary: t pc w)
  case Nil
  then show ?case by (simp add: prev_of_def)
next
  case (Cons a ci)
  obtain nm v where a: "a = (nm, v)" by (cases a)
  have ne: "k \<noteq> nm" and rest: "k \<notin> fst ` set ci" using Cons.prems by (auto simp: a)
  obtain t1 w1 where s1: "classList_add nm (t, w) = (t1, w1)"
    by (cases "classList_add nm (t, w)")
  obtain t2 w2 where s2: "classList_remove nm (t, w) = (t2, w2)"
    by (cases "classList_remove nm (t, w)")
  show ?case
    using Cons.IH[OF rest, of t pc w] Cons.IH[OF rest, of t1 "Set_add nm pc" w1]
          Cons.IH[OF rest, of t2 "Set_delete nm pc" w2] ne
    by (simp add: a s1 s2)
qed

lemma add_or_remove_key:
  "distinct (map fst ci) \<Longrightarrow> (k, v) \<in> set ci \<Longrightarrow>
   (k \<in> set (prev_of (add_or_remove ci (t, pc, w)))) =
     (if loosely_unequal v (Set_has k pc) then ToBoolean v else k \<in> set pc)"
proof (induction ci arbitrary: t pc w)
  case Nil
  then show ?case by simp
next
  case (Cons a ci)
  obtain nm u where a: "a = (nm, u)" by (cases a)
  obtain t1 w1 where s1: "classList_add nm (t, w) = (t1, w1)"
    by (cases "classList_add nm (t, w)")
  obtain t2 w2 where s2: "classList_remove nm (t, w) = (t2, w2)"
    by (cases "classList_remove nm (t, w)")
  have d: "distinct (map fst ci)" and fresh: "nm \<notin> fst ` set ci"
    using Cons.prems(1) by (simp_all add: a)
  show ?case
  proof (cases "(k, v) = a")
    case True
    then have kv: "nm = k" "u = v" by (simp_all add: a)
    have other: "k \<notin> fst ` set ci" using fresh kv by simp
    show ?thesis
      using add_or_remove_other[OF other, of t pc w]
            add_or_remove_other[OF other, of t1 "Set_add k pc" w1]
            add_or_remove_other[OF other, of t2 "Set_delete k pc" w2] s1 s2
      by (simp add: a kv)
  next
    case False
    then have inrest: "(k, v) \<in> set ci" using Cons.prems(2) by simp
    then have ne: "k \<noteq> nm" using fresh by force
    show ?thesis
      using Cons.IH[OF d inrest, of t pc w] Cons.IH[OF d inrest, of t1 "Set_add nm pc" w1]
            Cons.IH[OF d inrest, of t2 "Set_delete nm pc" w2] ne
      by (simp add: a s1 s2 Set_has_def)
  qed
qed

lemma falsy_unequal_to_true: "\<not> ToBoolean v \<Longrightarrow> loosely_unequal v True"
  by (cases v) (auto simp: loosely_unequal_def Number_equal_def StringToNumber_def)

lemma truthy_unequal_to_false:
  assumes "ToBoolean v"
    and "case v of VString s \<Rightarrow> s = [] \<or> StringToNumber s \<noteq> Finite 0 | VBoolean b \<Rightarrow> True | VNumber n \<Rightarrow> True"
  shows "loosely_unequal v False"
proof (cases v)
  case (VString s)
  then show ?thesis using assms by (simp add: loosely_unequal_def Number_equal_def)
next
  case (VBoolean c)
  then show ?thesis using assms by (simp add: loosely_unequal_def Number_equal_def)
next
  case (VNumber n)
  then show ?thesis using assms by (simp add: loosely_unequal_def Number_equal_def)
qed

lemma truthiness_decides:
  assumes "case v of VString s \<Rightarrow> s = [] \<or> StringToNumber s \<noteq> Finite 0 | VBoolean b \<Rightarrow> True | VNumber n \<Rightarrow> True"
  shows "(if loosely_unequal v b then ToBoolean v else b) = ToBoolean v"
proof (cases "ToBoolean v")
  case True
  then have "loosely_unequal v False" using assms by (rule truthy_unequal_to_false)
  then show ?thesis using True by (cases b) simp_all
next
  case False
  then have "loosely_unequal v True" by (rule falsy_unequal_to_true)
  then show ?thesis using False by (cases b) simp_all
qed

lemma add_or_remove_calls_other:
  "k \<notin> fst ` set ci \<Longrightarrow>
   \<exists>ops. calls (world_of (add_or_remove ci (t, pc, w))) = calls w @ ops \<and>
         Add k \<notin> set ops \<and> Remove k \<notin> set ops \<and> list_all is_class_call ops"
proof (induction ci arbitrary: t pc w)
  case Nil
  then show ?case by (simp add: world_of_def)
next
  case (Cons a ci)
  obtain nm v where a: "a = (nm, v)" by (cases a)
  have ne: "k \<noteq> nm" and rest: "k \<notin> fst ` set ci" using Cons.prems by (auto simp: a)
  obtain t1 w1 where s1: "classList_add nm (t, w) = (t1, w1)"
    by (cases "classList_add nm (t, w)")
  obtain t2 w2 where s2: "classList_remove nm (t, w) = (t2, w2)"
    by (cases "classList_remove nm (t, w)")
  have c1: "calls w1 = calls w @ [Add nm]" using classList_add_calls[of nm t w] s1 by simp
  have c2: "calls w2 = calls w @ [Remove nm]" using classList_remove_calls[of nm t w] s2 by simp
  show ?case
  proof (cases "loosely_unequal v (Set_has nm pc)")
    case False
    then show ?thesis using Cons.IH[OF rest, of t pc w] by (simp add: a)
  next
    case True
    show ?thesis
    proof (cases "ToBoolean v")
      case t: True
      obtain ops where ih: "calls (world_of (add_or_remove ci (t1, Set_add nm pc, w1))) = calls w1 @ ops"
        "Add k \<notin> set ops" "Remove k \<notin> set ops" "list_all is_class_call ops"
        using Cons.IH[OF rest, of t1 "Set_add nm pc" w1] by blast
      have "calls (world_of (add_or_remove (a # ci) (t, pc, w))) = calls w @ (Add nm # ops) \<and>
            Add k \<notin> set (Add nm # ops) \<and> Remove k \<notin> set (Add nm # ops) \<and>
            list_all is_class_call (Add nm # ops)"
        using True t ih c1 ne by (simp add: a s1)
      then show ?thesis by blast
    next
      case f: False
      obtain ops where ih: "calls (world_of (add_or_remove ci (t2, Set_delete nm pc, w2))) = calls w2 @ ops"
        "Add k \<notin> set ops" "Remove k \<notin> set ops" "list_all is_class_call ops"
        using Cons.IH[OF rest, of t2 "Set_delete nm pc" w2] by blast
      have "calls (world_of (add_or_remove (a # ci) (t, pc, w))) = calls w @ (Remove nm # ops) \<and>
            Add k \<notin> set (Remove nm # ops) \<and> Remove k \<notin> set (Remove nm # ops) \<and>
            list_all is_class_call (Remove nm # ops)"
        using True f ih c2 ne by (simp add: a s2)
      then show ?thesis by blast
    qed
  qed
qed

lemma add_or_remove_calls_key:
  "distinct (map fst ci) \<Longrightarrow> (k, v) \<in> set ci \<Longrightarrow>
   \<exists>ops. calls (world_of (add_or_remove ci (t, pc, w))) = calls w @ ops \<and>
         (Add k \<in> set ops) = (loosely_unequal v (Set_has k pc) \<and> ToBoolean v) \<and>
         (Remove k \<in> set ops) = (loosely_unequal v (Set_has k pc) \<and> \<not> ToBoolean v) \<and>
         list_all is_class_call ops"
proof (induction ci arbitrary: t pc w)
  case Nil
  then show ?case by simp
next
  case (Cons a ci)
  obtain nm u where a: "a = (nm, u)" by (cases a)
  obtain t1 w1 where s1: "classList_add nm (t, w) = (t1, w1)"
    by (cases "classList_add nm (t, w)")
  obtain t2 w2 where s2: "classList_remove nm (t, w) = (t2, w2)"
    by (cases "classList_remove nm (t, w)")
  have c1: "calls w1 = calls w @ [Add nm]" using classList_add_calls[of nm t w] s1 by simp
  have c2: "calls w2 = calls w @ [Remove nm]" using classList_remove_calls[of nm t w] s2 by simp
  have d: "distinct (map fst ci)" and fresh: "nm \<notin> fst ` set ci"
    using Cons.prems(1) by (simp_all add: a)
  define step where "step =
    (if loosely_unequal u (Set_has nm pc)
     then (if ToBoolean u then (t1, Set_add nm pc, w1) else (t2, Set_delete nm pc, w2))
     else (t, pc, w))"
  define op where "op =
    (if loosely_unequal u (Set_has nm pc)
     then (if ToBoolean u then [Add nm] else [Remove nm]) else [])"
  obtain t' pc' w' where st: "step = (t', pc', w')" by (cases step)
  have run: "add_or_remove (a # ci) (t, pc, w) = add_or_remove ci (t', pc', w')"
    using st by (auto simp: a s1 s2 step_def split: if_splits)
  have cw: "calls w' = calls w @ op"
    using st c1 c2 by (auto simp: step_def op_def split: if_splits)
  have opc: "list_all is_class_call op" by (simp add: op_def)
  show ?case
  proof (cases "(k, v) = a")
    case True
    then have kv: "nm = k" "u = v" by (simp_all add: a)
    have other: "k \<notin> fst ` set ci" using fresh kv by simp
    obtain ops where ih: "calls (world_of (add_or_remove ci (t', pc', w'))) = calls w' @ ops"
      "Add k \<notin> set ops" "Remove k \<notin> set ops" "list_all is_class_call ops"
      using add_or_remove_calls_other[OF other, of t' pc' w'] by blast
    have "calls (world_of (add_or_remove (a # ci) (t, pc, w))) = calls w @ (op @ ops) \<and>
          (Add k \<in> set (op @ ops)) = (loosely_unequal v (Set_has k pc) \<and> ToBoolean v) \<and>
          (Remove k \<in> set (op @ ops)) = (loosely_unequal v (Set_has k pc) \<and> \<not> ToBoolean v) \<and>
          list_all is_class_call (op @ ops)"
      using run ih cw opc by (simp add: op_def kv)
    then show ?thesis by blast
  next
    case False
    then have inrest: "(k, v) \<in> set ci" using Cons.prems(2) by simp
    then have ne: "k \<noteq> nm" using fresh by force
    have has: "Set_has k pc' = Set_has k pc"
      using st ne by (auto simp: step_def Set_has_def split: if_splits)
    obtain ops where ih: "calls (world_of (add_or_remove ci (t', pc', w'))) = calls w' @ ops"
      "(Add k \<in> set ops) = (loosely_unequal v (Set_has k pc') \<and> ToBoolean v)"
      "(Remove k \<in> set ops) = (loosely_unequal v (Set_has k pc') \<and> \<not> ToBoolean v)"
      "list_all is_class_call ops"
      using Cons.IH[OF d inrest, of t' pc' w'] by blast
    have "calls (world_of (add_or_remove (a # ci) (t, pc, w))) = calls w @ (op @ ops) \<and>
          (Add k \<in> set (op @ ops)) = (loosely_unequal v (Set_has k pc) \<and> ToBoolean v) \<and>
          (Remove k \<in> set (op @ ops)) = (loosely_unequal v (Set_has k pc) \<and> \<not> ToBoolean v) \<and>
          list_all is_class_call (op @ ops)"
      using run ih cw opc has ne by (simp add: op_def)
    then show ?thesis by blast
  qed
qed

lemma classList_remove_has_classList [simp]:
  "has_classList (snd (classList_remove nm (t, w))) = has_classList w"
  by (cases t) simp_all

lemma classList_add_has_classList [simp]:
  "has_classList (snd (classList_add nm (t, w))) = has_classList w"
  by (cases t) simp_all

lemma remove_old_has_classList:
  "has_classList (world_of (remove_old ci names (t, pc, w))) = has_classList w"
proof (induction names arbitrary: t pc w)
  case Nil
  then show ?case by (simp add: world_of_def)
next
  case (Cons nm names)
  obtain t' w' where s: "classList_remove nm (t, w) = (t', w')"
    by (cases "classList_remove nm (t, w)")
  have "has_classList w' = has_classList w"
    using classList_remove_has_classList[of nm t w] s by simp
  then show ?case
    using Cons.IH[of t pc w] Cons.IH[of t' "Set_delete nm pc" w'] s by simp
qed

lemma add_or_remove_has_classList:
  "has_classList (world_of (add_or_remove ci (t, pc, w))) = has_classList w"
proof (induction ci arbitrary: t pc w)
  case Nil
  then show ?case by (simp add: world_of_def)
next
  case (Cons a ci)
  obtain nm v where a: "a = (nm, v)" by (cases a)
  obtain t1 w1 where s1: "classList_add nm (t, w) = (t1, w1)"
    by (cases "classList_add nm (t, w)")
  obtain t2 w2 where s2: "classList_remove nm (t, w) = (t2, w2)"
    by (cases "classList_remove nm (t, w)")
  have "has_classList w1 = has_classList w" "has_classList w2 = has_classList w"
    using classList_add_has_classList[of nm t w] classList_remove_has_classList[of nm t w] s1 s2
    by simp_all
  then show ?case
    using Cons.IH[of t pc w] Cons.IH[of t1 "Set_add nm pc" w1] Cons.IH[of t2 "Set_delete nm pc" w2]
    by (simp add: a s1 s2)
qed

lemma remove_old_all_keys:
  "list_all (\<lambda>n. has_key n ci) names \<Longrightarrow> remove_old ci names st = st"
proof (induction names arbitrary: st)
  case Nil
  then show ?case by simp
next
  case (Cons nm names)
  obtain t pc w where st: "st = (t, pc, w)" by (cases st)
  show ?case using Cons by (simp add: st)
qed

lemma add_or_remove_no_toggle:
  "list_all (\<lambda>kv. \<not> loosely_unequal (snd kv) (Set_has (fst kv) pc)) ci \<Longrightarrow>
   add_or_remove ci (t, pc, w) = (t, pc, w)"
  by (induction ci) auto

lemma add_or_remove_native_key:
  "list_all valid_token (map fst ci) \<Longrightarrow> distinct (map fst ci) \<Longrightarrow> (k, v) \<in> set ci \<Longrightarrow>
   (k \<in> set (token_set (class_attribute (world_of (add_or_remove ci (DOMTokenList, pc, w)))))) =
     (if loosely_unequal v (Set_has k pc) then ToBoolean v
      else k \<in> set (token_set (class_attribute w)))"
proof (induction ci arbitrary: pc w)
  case Nil
  then show ?case by simp
next
  case (Cons a ci)
  obtain nm u where a: "a = (nm, u)" by (cases a)
  have valid: "valid_token nm" and vrest: "list_all valid_token (map fst ci)"
    using Cons.prems(1) by (simp_all add: a)
  have d: "distinct (map fst ci)" and fresh: "nm \<notin> fst ` set ci"
    using Cons.prems(2) by (simp_all add: a)
  let ?wa = "DOMTokenList_add nm (w\<lparr>calls := calls w @ [Add nm]\<rparr>)"
  let ?wr = "DOMTokenList_remove nm (w\<lparr>calls := calls w @ [Remove nm]\<rparr>)"
  have ta: "token_set (class_attribute ?wa) = Set_add nm (token_set (class_attribute w))"
    using token_set_add_logged[OF valid] by simp
  have tr: "token_set (class_attribute ?wr) = Set_delete nm (token_set (class_attribute w))"
    by simp
  show ?case
  proof (cases "(k, v) = a")
    case True
    then have kv: "nm = k" "u = v" by (simp_all add: a)
    have other: "k \<notin> fst ` set ci" using fresh kv by simp
    have keep: "(k \<in> set (token_set (class_attribute (world_of (add_or_remove ci (DOMTokenList, pc', w')))))) =
          (k \<in> set (token_set (class_attribute w')))" for pc' w'
      using add_or_remove_native[OF vrest, of pc' w'] other by (auto simp: world_of_def)
    show ?thesis
      using keep[of pc w] keep[of "Set_add k pc" ?wa] keep[of "Set_delete k pc" ?wr] ta tr
      by (simp add: a kv)
  next
    case False
    then have inrest: "(k, v) \<in> set ci" using Cons.prems(3) by simp
    then have ne: "k \<noteq> nm" using fresh by force
    show ?thesis
      using Cons.IH[OF vrest d inrest, of pc w] Cons.IH[OF vrest d inrest, of "Set_add nm pc" ?wa]
            Cons.IH[OF vrest d inrest, of "Set_delete nm pc" ?wr] ta tr ne
      by (simp add: a Set_has_def)
  qed
qed

lemma boolean_unequal: "is_boolean v \<Longrightarrow> loosely_unequal v b = (ToBoolean v \<noteq> b)"
  by (cases v; cases b) (auto simp: loosely_unequal_def Number_equal_def)

subsection \<open>The directive as a whole\<close>

lemma classMap_fst: "fst (classMap ci p w) = (if unsupported p then Inl UsageError else Inr ())"
  by (simp add: classMap_def split: prod.splits)

lemma classMap_cache:
  "\<not> unsupported p \<Longrightarrow>
   previousClassesCache (snd (classMap ci p w)) =
     Some (prev_of (add_or_remove ci (remove_old ci (snd (initial_classList p w))
        (fst (initial_classList p w), snd (initial_classList p w), w))))"
  by (simp add: classMap_def prev_of_def split: prod.splits)

lemma classMap_first:
  assumes "\<not> unsupported p" and "previousClassesCache w = None"
  shows "\<exists>m ops. list_all is_class_call ops \<and>
     (\<forall>a native.
        initial_classList p (w\<lparr>class_attribute := a, has_classList := native\<rparr>) =
          (Shim \<lparr>element = None, part = Some p, classes = [], changed = True\<rparr>, []) \<and>
        classMap classInfo p (w\<lparr>class_attribute := a, has_classList := native\<rparr>) =
          (Inr (),
           w\<lparr>class_attribute := Some (classString m), has_classList := native,
             previousClassesCache := Some m,
             calls := calls w @ ops @ [SetValue (classString m)]\<rparr>))"
proof -
  let ?l = "\<lparr>element = None, part = Some p, classes = [], changed = True\<rparr>"
  obtain ops cs' pc' where loop:
    "\<forall>w. add_or_remove classInfo (Shim ?l, [], w) =
        (Shim (?l\<lparr>classes := cs', changed := changed ?l \<or> ops \<noteq> []\<rparr>), pc', w\<lparr>calls := calls w @ ops\<rparr>)"
    "classes ?l = [] \<longrightarrow> cs' = pc'" "list_all is_class_call ops"
    using add_or_remove_Shim[of classInfo ?l "[]"] by blast
  have same: "cs' = pc'" using loop(2) by simp
  have "initial_classList p (w\<lparr>class_attribute := a, has_classList := native\<rparr>) = (Shim ?l, []) \<and>
        classMap classInfo p (w\<lparr>class_attribute := a, has_classList := native\<rparr>) =
          (Inr (),
           w\<lparr>class_attribute := Some (classString pc'), has_classList := native,
             previousClassesCache := Some pc',
             calls := calls w @ ops @ [SetValue (classString pc')]\<rparr>)" for a native
    using assms loop(1) same
    by (simp add: classMap_def initial_classList_def ClassList_commit_def setValue_def)
  then show ?thesis using loop(3) by blast
qed

lemma classMap_native_step:
  assumes "\<not> unsupported p" and "has_classList w" and "previousClassesCache w = Some m"
    and "list_all valid_token (map fst ci)" and "x \<notin> set m" and "x \<notin> fst ` set ci"
  shows "\<exists>w' m' ops. classMap ci p w = (Inr (), w') \<and> has_classList w' \<and>
           previousClassesCache w' = Some m' \<and> x \<notin> set m' \<and>
           calls w' = calls w @ ops \<and> Add x \<notin> set ops \<and> Remove x \<notin> set ops \<and>
           (x \<in> set (token_set (class_attribute w'))) = (x \<in> set (token_set (class_attribute w)))"
proof -
  let ?keep = "\<lambda>n. n \<notin> set m \<or> has_key n ci"
  obtain w1 where r:
    "remove_old ci m (DOMTokenList, m, w) = (DOMTokenList, filter ?keep m, w1)"
    "has_classList w1 = has_classList w"
    "previousClassesCache w1 = previousClassesCache w"
    "calls w1 = calls w @ map Remove (filter (\<lambda>n. \<not> has_key n ci) m)"
    "token_set (class_attribute w1) = filter ?keep (token_set (class_attribute w))"
    using remove_old_native[of ci m m w] by blast
  obtain pc' w' ops where a:
    "add_or_remove ci (DOMTokenList, filter ?keep m, w1) = (DOMTokenList, pc', w')"
    "has_classList w' = has_classList w1" "previousClassesCache w' = previousClassesCache w1"
    "calls w' = calls w1 @ ops" "list_all is_class_call ops"
    "\<forall>x. x \<notin> fst ` set ci \<longrightarrow>
        (x \<in> set (token_set (class_attribute w'))) = (x \<in> set (token_set (class_attribute w1))) \<and>
        Add x \<notin> set ops \<and> Remove x \<notin> set ops"
    using add_or_remove_native[OF assms(4), of "filter ?keep m" w1] by blast
  have run: "classMap ci p w = (Inr (), w'\<lparr>previousClassesCache := Some pc'\<rparr>)"
    using assms(1-3) r(1) a(1) by (simp add: classMap_def initial_classList_def)
  have "set pc' \<subseteq> set (filter ?keep m) \<union> fst ` set ci"
    using add_or_remove_prev_subset[of ci DOMTokenList "filter ?keep m" w1] a(1)
    by (simp add: prev_of_def)
  then have notin: "x \<notin> set pc'" using assms(5,6) by auto
  have calls: "calls (w'\<lparr>previousClassesCache := Some pc'\<rparr>) =
      calls w @ (map Remove (filter (\<lambda>n. \<not> has_key n ci) m) @ ops)"
    using a(4) r(4) by simp
  have nocall: "Add x \<notin> set (map Remove (filter (\<lambda>n. \<not> has_key n ci) m) @ ops)"
       "Remove x \<notin> set (map Remove (filter (\<lambda>n. \<not> has_key n ci) m) @ ops)"
    using a(6) assms(5,6) by auto
  have tokens: "(x \<in> set (token_set (class_attribute (w'\<lparr>previousClassesCache := Some pc'\<rparr>)))) =
      (x \<in> set (token_set (class_attribute w)))"
    using a(6) assms(5,6) r(5) by auto
  have native: "has_classList (w'\<lparr>previousClassesCache := Some pc'\<rparr>)"
    using a(2) r(2) assms(2) by simp
  have "classMap ci p w = (Inr (), w'\<lparr>previousClassesCache := Some pc'\<rparr>) \<and>
        has_classList (w'\<lparr>previousClassesCache := Some pc'\<rparr>) \<and>
        previousClassesCache (w'\<lparr>previousClassesCache := Some pc'\<rparr>) = Some pc' \<and> x \<notin> set pc' \<and>
        calls (w'\<lparr>previousClassesCache := Some pc'\<rparr>) =
          calls w @ (map Remove (filter (\<lambda>n. \<not> has_key n ci) m) @ ops) \<and>
        Add x \<notin> set (map Remove (filter (\<lambda>n. \<not> has_key n ci) m) @ ops) \<and>
        Remove x \<notin> set (map Remove (filter (\<lambda>n. \<not> has_key n ci) m) @ ops) \<and>
        (x \<in> set (token_set (class_attribute (w'\<lparr>previousClassesCache := Some pc'\<rparr>)))) =
          (x \<in> set (token_set (class_attribute w)))"
    using run native notin calls nocall tokens by simp
  then show ?thesis by blast
qed

lemma StringToNumber_0 [simp]: "StringToNumber ''0'' = Finite 0"
  by (simp add: StringToNumber_def js_space_def NonDecimalIntegerLiteral_def StrDecimalLiteral_def
      StrUnsignedDecimalLiteral_def is_digit_def ExponentPart_def digits_value_def digit_value_def
      RoundMVResult_def)

lemma StringToNumber_empty: "StringToNumber [] = Finite 0"
  by (simp add: StringToNumber_def)

lemma StringToNumber_yes: "StringToNumber ''yes'' = NaN"
  by (simp add: StringToNumber_def js_space_def NonDecimalIntegerLiteral_def StrDecimalLiteral_def
      StrUnsignedDecimalLiteral_def is_digit_def ExponentPart_def digits_value_def digit_value_def
      RoundMVResult_def)

lemma ClassList_commit_calls:
  "\<exists>c. calls (ClassList_commit l w) = calls w @ c \<and> list_all (\<lambda>x. \<not> is_class_call x) c"
proof (cases "changed l")
  case False
  then have "calls (ClassList_commit l w) = calls w @ []" by (simp add: ClassList_commit_def)
  then show ?thesis by fastforce
next
  case True
  show ?thesis
  proof (cases "element l")
    case None
    then have "calls (ClassList_commit l w) = calls w @ [SetValue (classString (classes l))]"
      using True by (simp add: ClassList_commit_def setValue_def)
    then show ?thesis by fastforce
  next
    case (Some e)
    then have "calls (ClassList_commit l w) = calls w @ [SetAttribute (classString (classes l))]"
      using True by (simp add: ClassList_commit_def setAttribute_def)
    then show ?thesis by fastforce
  qed
qed

lemma classMap_calls:
  assumes "\<not> unsupported p" and "initial_classList p w = (t, pc)"
  shows "\<exists>c. calls (snd (classMap ci p w)) =
            calls (world_of (add_or_remove ci (remove_old ci pc (t, pc, w)))) @ c \<and>
            list_all (\<lambda>x. \<not> is_class_call x) c"
proof -
  obtain t' pc' w' where r: "add_or_remove ci (remove_old ci pc (t, pc, w)) = (t', pc', w')"
    by (cases "add_or_remove ci (remove_old ci pc (t, pc, w))")
  show ?thesis
  proof (cases t')
    case DOMTokenList
    then have "calls (snd (classMap ci p w)) = calls w' @ []"
      using assms r by (simp add: classMap_def)
    then show ?thesis using r by (fastforce simp: world_of_def)
  next
    case (Shim l)
    then have "calls (snd (classMap ci p w)) = calls (ClassList_commit l w')"
      using assms r by (simp add: classMap_def)
    then show ?thesis using r ClassList_commit_calls[of l w'] by (simp add: world_of_def)
  qed
qed

lemma initial_classList_prev:
  "snd (initial_classList p w) = (case previousClassesCache w of None \<Rightarrow> [] | Some m \<Rightarrow> m)"
  by (simp add: initial_classList_def split: option.splits)

lemma classMap_has_classList:
  "has_classList (snd (classMap ci p w)) = has_classList w"
proof (cases "unsupported p")
  case True
  then show ?thesis by (simp add: classMap_def)
next
  case False
  obtain t pc where i: "initial_classList p w = (t, pc)" by (cases "initial_classList p w")
  obtain t1 pc1 w1 where r: "remove_old ci pc (t, pc, w) = (t1, pc1, w1)"
    by (cases "remove_old ci pc (t, pc, w)")
  obtain t2 pc2 w2 where a: "add_or_remove ci (t1, pc1, w1) = (t2, pc2, w2)"
    by (cases "add_or_remove ci (t1, pc1, w1)")
  have "has_classList w1 = has_classList w"
    using remove_old_has_classList[of ci pc t pc w] r by (simp add: world_of_def)
  moreover have "has_classList w2 = has_classList w1"
    using add_or_remove_has_classList[of ci t1 pc1 w1] a by (simp add: world_of_def)
  ultimately show ?thesis using False i r a
    by (cases t2) (simp_all add: classMap_def ClassList_commit_def setValue_def setAttribute_def)
qed

lemma classMap_key_member:
  assumes "\<not> unsupported p" and "distinct (map fst classInfo)" and "(k, v) \<in> set classInfo"
    and "case v of VString s \<Rightarrow> s = [] \<or> StringToNumber s \<noteq> Finite 0 | VBoolean b \<Rightarrow> True | VNumber n \<Rightarrow> True"
  shows "\<exists>m. previousClassesCache (snd (classMap classInfo p w)) = Some m \<and>
             (k \<in> set m) = ToBoolean v \<and>
             ToBoolean v = (v \<noteq> VString [] \<and> v \<noteq> VNumber (Finite 0) \<and> v \<noteq> VNumber NaN \<and>
                            v \<noteq> VBoolean False) \<and>
             (previousClassesCache w = None \<longrightarrow>
                class_attribute (snd (classMap classInfo p w)) = Some (classString m))"
proof -
  obtain t pc where i: "initial_classList p w = (t, pc)" by (cases "initial_classList p w")
  obtain t1 pc1 w1 where r: "remove_old classInfo pc (t, pc, w) = (t1, pc1, w1)"
    by (cases "remove_old classInfo pc (t, pc, w)")
  define m where "m = prev_of (add_or_remove classInfo (t1, pc1, w1))"
  have cache: "previousClassesCache (snd (classMap classInfo p w)) = Some m"
    using classMap_cache[OF assms(1), of classInfo w] i r by (simp add: m_def)
  have key: "has_key k classInfo" using assms(3) by (force simp: has_key_def)
  have "pc1 = filter (\<lambda>n. n \<notin> set pc \<or> has_key n classInfo) pc"
    using remove_old_prev[of classInfo pc t pc w] r by (simp add: prev_of_def)
  then have same: "(k \<in> set pc1) = (k \<in> set pc)" using key by auto
  have "(k \<in> set m) = (if loosely_unequal v (k \<in> set pc1) then ToBoolean v else k \<in> set pc1)"
    using add_or_remove_key[OF assms(2,3), of t1 pc1 w1] by (simp add: m_def Set_has_def)
  then have member: "(k \<in> set m) = ToBoolean v"
    using truthiness_decides[OF assms(4), of "k \<in> set pc1"] by simp
  have table: "ToBoolean v = (v \<noteq> VString [] \<and> v \<noteq> VNumber (Finite 0) \<and> v \<noteq> VNumber NaN \<and>
                            v \<noteq> VBoolean False)"
  proof (cases v)
    case (VString s)
    then show ?thesis by simp
  next
    case (VBoolean b)
    then show ?thesis by simp
  next
    case (VNumber n)
    then show ?thesis by (simp add: conj_commute)
  qed
  have first: "class_attribute (snd (classMap classInfo p w)) = Some (classString m)"
    if none: "previousClassesCache w = None"
  proof -
    obtain m' ops where f:
      "\<forall>a native. classMap classInfo p (w\<lparr>class_attribute := a, has_classList := native\<rparr>) =
          (Inr (),
           w\<lparr>class_attribute := Some (classString m'), has_classList := native,
             previousClassesCache := Some m',
             calls := calls w @ ops @ [SetValue (classString m')]\<rparr>)"
      using classMap_first[OF assms(1) none, of classInfo] by blast
    have "classMap classInfo p (w\<lparr>class_attribute := class_attribute w, has_classList := has_classList w\<rparr>) =
          (Inr (),
           w\<lparr>class_attribute := Some (classString m'), has_classList := has_classList w,
             previousClassesCache := Some m',
             calls := calls w @ ops @ [SetValue (classString m')]\<rparr>)"
      using spec[OF spec[OF f, of "class_attribute w"], of "has_classList w"] .
    then show ?thesis using cache by simp
  qed
  have "previousClassesCache (snd (classMap classInfo p w)) = Some m \<and>
        (k \<in> set m) = ToBoolean v \<and>
        ToBoolean v = (v \<noteq> VString [] \<and> v \<noteq> VNumber (Finite 0) \<and> v \<noteq> VNumber NaN \<and>
                       v \<noteq> VBoolean False) \<and>
        (previousClassesCache w = None \<longrightarrow>
           class_attribute (snd (classMap classInfo p w)) = Some (classString m))"
    using cache member table first by (intro conjI impI)
  then show ?thesis by (rule exI)
qed

lemma classMap_other_class:
  assumes "\<not> unsupported p"
    and "x \<notin> set (case previousClassesCache w of None \<Rightarrow> [] | Some m \<Rightarrow> m)"
    and "x \<notin> fst ` set ci"
  shows "\<exists>m' ops. fst (classMap ci p w) = Inr () \<and>
           previousClassesCache (snd (classMap ci p w)) = Some m' \<and> x \<notin> set m' \<and>
           calls (snd (classMap ci p w)) = calls w @ ops \<and>
           Add x \<notin> set ops \<and> Remove x \<notin> set ops"
proof -
  obtain t pc where i: "initial_classList p w = (t, pc)" by (cases "initial_classList p w")
  have pc: "pc = (case previousClassesCache w of None \<Rightarrow> [] | Some m \<Rightarrow> m)"
    using initial_classList_prev[of p w] i by simp
  obtain t1 pc1 w1 where r: "remove_old ci pc (t, pc, w) = (t1, pc1, w1)"
    by (cases "remove_old ci pc (t, pc, w)")
  have pc1: "pc1 = filter (\<lambda>n. n \<notin> set pc \<or> has_key n ci) pc"
    using remove_old_prev[of ci pc t pc w] r by (simp add: prev_of_def)
  have c1: "calls w1 = calls w @ map Remove (filter (\<lambda>n. \<not> has_key n ci) pc)"
    using remove_old_calls[of ci pc t pc w] r by (simp add: world_of_def)
  define m' where "m' = prev_of (add_or_remove ci (t1, pc1, w1))"
  have cache: "previousClassesCache (snd (classMap ci p w)) = Some m'"
    using classMap_cache[OF assms(1), of ci w] i r by (simp add: m'_def)
  have "x \<notin> set pc1" using pc1 pc assms(2) by simp
  then have gone: "x \<notin> set m'"
    using add_or_remove_other[OF assms(3), of t1 pc1 w1] by (simp add: m'_def)
  obtain ops where a: "calls (world_of (add_or_remove ci (t1, pc1, w1))) = calls w1 @ ops"
    "Add x \<notin> set ops" "Remove x \<notin> set ops"
    using add_or_remove_calls_other[OF assms(3), of t1 pc1 w1] by blast
  obtain cm where cm: "calls (snd (classMap ci p w)) =
      calls (world_of (add_or_remove ci (t1, pc1, w1))) @ cm"
      "list_all (\<lambda>c. \<not> is_class_call c) cm"
    using classMap_calls[OF assms(1) i, of ci] r by auto
  have ncm: "Add x \<notin> set cm" "Remove x \<notin> set cm"
    using cm(2) by (auto simp: list_all_iff)
  let ?all = "map Remove (filter (\<lambda>n. \<not> has_key n ci) pc) @ ops @ cm"
  have total: "calls (snd (classMap ci p w)) = calls w @ ?all"
    using cm(1) a(1) c1 by simp
  have noadd: "Add x \<notin> set ?all" using a(2) ncm(1) by auto
  have noremove: "Remove x \<notin> set ?all" using a(3) ncm(2) pc assms(2) by auto
  have ok: "fst (classMap ci p w) = Inr ()" using assms(1) by (simp add: classMap_fst)
  show ?thesis using ok cache gone total noadd noremove by blast
qed

lemma render_all_other_class:
  assumes "\<not> unsupported p"
  shows "x \<notin> set (case previousClassesCache w of None \<Rightarrow> [] | Some m \<Rightarrow> m) \<Longrightarrow>
     \<forall>ci \<in> set renders. x \<notin> fst ` set ci \<Longrightarrow>
     fst (render_all renders p w) = Inr () \<and>
     (\<exists>ops. calls (snd (render_all renders p w)) = calls w @ ops \<and>
            Add x \<notin> set ops \<and> Remove x \<notin> set ops)"
proof (induction renders arbitrary: w)
  case Nil
  show ?case by simp
next
  case (Cons ci renders)
  have nokey: "x \<notin> fst ` set ci" using Cons.prems(2) by simp
  obtain m' ops where step:
    "fst (classMap ci p w) = Inr ()"
    "previousClassesCache (snd (classMap ci p w)) = Some m'" "x \<notin> set m'"
    "calls (snd (classMap ci p w)) = calls w @ ops" "Add x \<notin> set ops" "Remove x \<notin> set ops"
    using classMap_other_class[OF assms Cons.prems(1) nokey] by blast
  obtain w' where w': "classMap ci p w = (Inr (), w')"
    using step(1) by (cases "classMap ci p w") auto
  have inv: "x \<notin> set (case previousClassesCache w' of None \<Rightarrow> [] | Some m \<Rightarrow> m)"
    using step(2,3) w' by simp
  have rest: "\<forall>ci \<in> set renders. x \<notin> fst ` set ci" using Cons.prems(2) by simp
  obtain ops' where ih:
    "fst (render_all renders p w') = Inr ()"
    "calls (snd (render_all renders p w')) = calls w' @ ops'"
    "Add x \<notin> set ops'" "Remove x \<notin> set ops'"
    using Cons.IH[OF inv rest] by blast
  have run: "render_all (ci # renders) p w = render_all renders p w'"
    using w' by simp
  have "calls (snd (render_all renders p w')) = calls w @ (ops @ ops') \<and>
        Add x \<notin> set (ops @ ops') \<and> Remove x \<notin> set (ops @ ops')"
    using ih(2-4) step(4-6) w' by simp
  then have "\<exists>ops. calls (snd (render_all renders p w')) = calls w @ ops \<and>
        Add x \<notin> set ops \<and> Remove x \<notin> set ops"
    by blast
  then show ?case using run ih(1) by simp
qed

lemma render_all_native:
  assumes "\<not> unsupported p" and "has_classList w" and "previousClassesCache w = Some m"
    and "x \<notin> set m"
    and "\<forall>classInfo \<in> set renders. x \<notin> fst ` set classInfo \<and> list_all valid_token (map fst classInfo)"
  shows "fst (render_all renders p w) = Inr () \<and>
         (x \<in> set (token_set (class_attribute (snd (render_all renders p w))))) =
           (x \<in> set (token_set (class_attribute w))) \<and>
         (\<exists>ops. calls (snd (render_all renders p w)) = calls w @ ops \<and>
                Add x \<notin> set ops \<and> Remove x \<notin> set ops)"
  using assms(2-5)
proof (induction renders arbitrary: w m)
  case Nil
  show ?case by simp
next
  case (Cons ci renders)
  have valid: "list_all valid_token (map fst ci)" and nokey: "x \<notin> fst ` set ci"
    using Cons.prems(4) by simp_all
  obtain w' m' ops where step:
    "classMap ci p w = (Inr (), w')" "has_classList w'"
    "previousClassesCache w' = Some m'" "x \<notin> set m'"
    "calls w' = calls w @ ops" "Add x \<notin> set ops" "Remove x \<notin> set ops"
    "(x \<in> set (token_set (class_attribute w'))) = (x \<in> set (token_set (class_attribute w)))"
    using classMap_native_step[OF assms(1) Cons.prems(1,2) valid Cons.prems(3) nokey] by blast
  have rest: "\<forall>classInfo \<in> set renders. x \<notin> fst ` set classInfo \<and> list_all valid_token (map fst classInfo)"
    using Cons.prems(4) by simp
  obtain ops' where ih:
    "fst (render_all renders p w') = Inr ()"
    "(x \<in> set (token_set (class_attribute (snd (render_all renders p w'))))) =
       (x \<in> set (token_set (class_attribute w')))"
    "calls (snd (render_all renders p w')) = calls w' @ ops'"
    "Add x \<notin> set ops'" "Remove x \<notin> set ops'"
    using Cons.IH[OF step(2,3,4) rest] by blast
  have run: "render_all (ci # renders) p w = render_all renders p w'"
    using step(1) by simp
  have "calls (snd (render_all renders p w')) = calls w @ (ops @ ops') \<and>
        Add x \<notin> set (ops @ ops') \<and> Remove x \<notin> set (ops @ ops')"
    using ih(3-5) step(5-7) by simp
  then have "\<exists>ops. calls (snd (render_all renders p w')) = calls w @ ops \<and>
        Add x \<notin> set ops \<and> Remove x \<notin> set ops"
    by blast
  then show ?case using run ih(1,2) step(8) by simp
qed

lemma filter_class_calls_Remove [simp]: "filter is_class_call (map Remove ns) = map Remove ns"
  by (induction ns) simp_all

lemma classMap_empty:
  assumes "\<not> unsupported p"
  shows "fst (classMap [] p w) = Inr () \<and>
         previousClassesCache (snd (classMap [] p w)) =
           Some (filter (\<lambda>n. n \<in> set Object_prototype)
                   (case previousClassesCache w of None \<Rightarrow> [] | Some m \<Rightarrow> m)) \<and>
         calls (snd (classMap [] p w)) =
           calls w @
           map Remove (filter (\<lambda>n. n \<notin> set Object_prototype)
                         (case previousClassesCache w of None \<Rightarrow> [] | Some m \<Rightarrow> m)) @
           (if previousClassesCache w \<noteq> None \<and> has_classList w then [] else [SetValue []]) \<and>
         (if previousClassesCache w \<noteq> None \<and> has_classList w
          then token_set (class_attribute (snd (classMap [] p w))) =
                 filter (\<lambda>n. n \<notin> set (case previousClassesCache w of None \<Rightarrow> [] | Some m \<Rightarrow> m) \<or>
                             n \<in> set Object_prototype)
                   (token_set (class_attribute w))
          else class_attribute (snd (classMap [] p w)) = Some [])"
proof (cases "previousClassesCache w")
  case None
  then show ?thesis using assms
    by (simp add: classMap_def initial_classList_def ClassList_commit_def setValue_def classString_def)
next
  case (Some m)
  have key: "\<And>n. has_key n [] = (n \<in> set Object_prototype)" by (simp add: has_key_def)
  have kept: "filter (\<lambda>n. n \<notin> set m \<or> n \<in> set Object_prototype) m =
      filter (\<lambda>n. n \<in> set Object_prototype) m"
    by (rule filter_cong) auto
  show ?thesis
  proof (cases "has_classList w")
    case True
    obtain w' where r:
      "remove_old [] m (DOMTokenList, m, w) =
          (DOMTokenList, filter (\<lambda>n. n \<notin> set m \<or> has_key n []) m, w')"
      "has_classList w' = has_classList w"
      "previousClassesCache w' = previousClassesCache w"
      "calls w' = calls w @ map Remove (filter (\<lambda>n. \<not> has_key n []) m)"
      "token_set (class_attribute w') =
          filter (\<lambda>n. n \<notin> set m \<or> has_key n []) (token_set (class_attribute w))"
      using remove_old_native[of "[]" m m w] by blast
    show ?thesis using assms Some True r kept
      by (simp add: classMap_def initial_classList_def key)
  next
    case False
    show ?thesis using assms Some False remove_old_Shim[of "[]" m _ m w] kept
      by (simp add: classMap_def initial_classList_def key ClassList_commit_def setValue_def classString_def)
  qed
qed

subsection \<open>The rule of the second loop, removal, and a second application\<close>

text \<open>
  The second loop as the code has it: with distinct keys, \<^verbatim>\<open>add\<close> is called for a key
  exactly when its value is loosely unequal to its membership in the managed set
  and truthy, \<^verbatim>\<open>remove\<close> exactly when it is loosely unequal and falsy.
\<close>

theorem toggle_rule:
  assumes "\<not> unsupported p" and "distinct (map fst classInfo)" and "(k, v) \<in> set classInfo"
  shows "\<exists>ops. calls (snd (classMap classInfo p w)) = calls w @ ops \<and>
           (Add k \<in> set ops) =
             (loosely_unequal v (Set_has k (case previousClassesCache w of None \<Rightarrow> [] | Some m \<Rightarrow> m)) \<and>
              ToBoolean v) \<and>
           (Remove k \<in> set ops) =
             (loosely_unequal v (Set_has k (case previousClassesCache w of None \<Rightarrow> [] | Some m \<Rightarrow> m)) \<and>
              \<not> ToBoolean v)"
proof -
  obtain t pc where i: "initial_classList p w = (t, pc)" by (cases "initial_classList p w")
  have pc: "pc = (case previousClassesCache w of None \<Rightarrow> [] | Some m \<Rightarrow> m)"
    using initial_classList_prev[of p w] i by simp
  obtain t1 pc1 w1 where r: "remove_old classInfo pc (t, pc, w) = (t1, pc1, w1)"
    by (cases "remove_old classInfo pc (t, pc, w)")
  have key: "has_key k classInfo" using assms(3) by (force simp: has_key_def)
  have pc1: "pc1 = filter (\<lambda>n. n \<notin> set pc \<or> has_key n classInfo) pc"
    using remove_old_prev[of classInfo pc t pc w] r by (simp add: prev_of_def)
  have has: "Set_has k pc1 = Set_has k pc" using key pc1 by (auto simp: Set_has_def)
  have c1: "calls w1 = calls w @ map Remove (filter (\<lambda>n. \<not> has_key n classInfo) pc)"
    using remove_old_calls[of classInfo pc t pc w] r by (simp add: world_of_def)
  obtain ops where a:
    "calls (world_of (add_or_remove classInfo (t1, pc1, w1))) = calls w1 @ ops"
    "(Add k \<in> set ops) = (loosely_unequal v (Set_has k pc1) \<and> ToBoolean v)"
    "(Remove k \<in> set ops) = (loosely_unequal v (Set_has k pc1) \<and> \<not> ToBoolean v)"
    "list_all is_class_call ops"
    using add_or_remove_calls_key[OF assms(2,3), of t1 pc1 w1] by blast
  obtain c where c: "calls (snd (classMap classInfo p w)) =
      calls (world_of (add_or_remove classInfo (remove_old classInfo pc (t, pc, w)))) @ c"
      "list_all (\<lambda>x. \<not> is_class_call x) c"
    using classMap_calls[OF assms(1) i, of classInfo] by blast
  define all where "all = map Remove (filter (\<lambda>n. \<not> has_key n classInfo) pc) @ ops @ c"
  have nc: "Add k \<notin> set c" "Remove k \<notin> set c"
    using c(2) by (auto simp: list_all_iff)
  have total: "calls (snd (classMap classInfo p w)) = calls w @ all"
    using c(1) r a(1) c1 by (simp add: all_def)
  have add: "(Add k \<in> set all) = (loosely_unequal v (Set_has k pc) \<and> ToBoolean v)"
    using a(2) has nc(1) by (auto simp: all_def)
  have rem: "(Remove k \<in> set all) = (loosely_unequal v (Set_has k pc) \<and> \<not> ToBoolean v)"
    using a(3) has nc(2) key by (auto simp: all_def)
  show ?thesis using total add rem pc by blast
qed

theorem toggle_rule_witness:
  "calls (snd (classMap [(''foo'', VNumber (Finite 2)), (''bar'', VString ''0'')] class_part
       (rendered_world (Some ''foo'') True [''foo'']))) = [Add ''foo'']"
  using toggle_rule[of class_part "[(''foo'', VNumber (Finite 2)), (''bar'', VString ''0'')]"
          "''foo''" "VNumber (Finite 2)" "rendered_world (Some ''foo'') True [''foo'']"]
  by (simp add: run_defs)

text \<open>
  A class of the previous managed set that is not a name in the new ClassInfo
  (neither a key nor inherited from \<^verbatim>\<open>Object.prototype\<close>), or is a key with a falsy
  value, gets a \<^verbatim>\<open>remove\<close> call and no \<^verbatim>\<open>add\<close> call and is not in
  the managed set afterwards; on the native list (keys being class names) it is not
  among the element's classes afterwards.
\<close>

theorem managed_class_removed:
  assumes "\<not> unsupported p" and "previousClassesCache w = Some m" and "c \<in> set m"
    and "distinct (map fst classInfo)"
    and "\<not> has_key c classInfo \<or> (\<exists>v. (c, v) \<in> set classInfo \<and> \<not> ToBoolean v)"
  shows "\<exists>m' ops. previousClassesCache (snd (classMap classInfo p w)) = Some m' \<and> c \<notin> set m' \<and>
           calls (snd (classMap classInfo p w)) = calls w @ ops \<and>
           Remove c \<in> set ops \<and> Add c \<notin> set ops \<and>
           (has_classList w \<and> list_all valid_token (map fst classInfo) \<longrightarrow>
              c \<notin> set (token_set (class_attribute (snd (classMap classInfo p w)))))"
proof -
  let ?keep = "\<lambda>n. n \<notin> set m \<or> has_key n classInfo"
  let ?gone = "map Remove (filter (\<lambda>n. \<not> has_key n classInfo) m)"
  obtain t where i: "initial_classList p w = (t, m)"
    using assms(2) by (simp add: initial_classList_def)
  obtain t1 pc1 w1 where r: "remove_old classInfo m (t, m, w) = (t1, pc1, w1)"
    by (cases "remove_old classInfo m (t, m, w)")
  have pc1: "pc1 = filter ?keep m"
    using remove_old_prev[of classInfo m t m w] r by (simp add: prev_of_def)
  have c1: "calls w1 = calls w @ ?gone"
    using remove_old_calls[of classInfo m t m w] r by (simp add: world_of_def)
  define m' where "m' = prev_of (add_or_remove classInfo (t1, pc1, w1))"
  have cache: "previousClassesCache (snd (classMap classInfo p w)) = Some m'"
    using classMap_cache[OF assms(1), of classInfo w] i r by (simp add: m'_def)
  obtain cm where cm: "calls (snd (classMap classInfo p w)) =
      calls (world_of (add_or_remove classInfo (t1, pc1, w1))) @ cm"
      "list_all (\<lambda>x. \<not> is_class_call x) cm"
    using classMap_calls[OF assms(1) i, of classInfo] r by auto
  have ncm: "Add c \<notin> set cm" using cm(2) by (auto simp: list_all_iff)
  have native: "c \<notin> set (token_set (class_attribute (snd (classMap classInfo p w))))"
    if nat: "has_classList w" and valid: "list_all valid_token (map fst classInfo)"
      and tok: "\<And>w1 :: World. token_set (class_attribute w1) = filter ?keep (token_set (class_attribute w)) \<Longrightarrow>
        c \<notin> set (token_set (class_attribute (world_of (add_or_remove classInfo (DOMTokenList, filter ?keep m, w1)))))"
  proof -
    have t: "t = DOMTokenList" using i nat assms(2) by (simp add: initial_classList_def)
    obtain w1' where rn:
      "remove_old classInfo m (DOMTokenList, m, w) = (DOMTokenList, filter ?keep m, w1')"
      "token_set (class_attribute w1') = filter ?keep (token_set (class_attribute w))"
      using remove_old_native[of classInfo m m w] by blast
    obtain pc2 w2 where an:
      "add_or_remove classInfo (DOMTokenList, filter ?keep m, w1') = (DOMTokenList, pc2, w2)"
      using add_or_remove_native[OF valid, of "filter ?keep m" w1'] by blast
    have "snd (classMap classInfo p w) = w2\<lparr>previousClassesCache := Some pc2\<rparr>"
      using assms(1) i t rn(1) an by (simp add: classMap_def)
    then show ?thesis using tok[OF rn(2)] an by (simp add: world_of_def)
  qed
  show ?thesis
  proof (cases "has_key c classInfo")
    case False
    then have nk: "c \<notin> fst ` set classInfo" by (simp add: has_key_def)
    have "c \<notin> set pc1" using pc1 False assms(3) by simp
    then have gone: "c \<notin> set m'"
      using add_or_remove_other[OF nk, of t1 pc1 w1] by (simp add: m'_def)
    obtain ops where a: "calls (world_of (add_or_remove classInfo (t1, pc1, w1))) = calls w1 @ ops"
      "Add c \<notin> set ops" "Remove c \<notin> set ops"
      using add_or_remove_calls_other[OF nk, of t1 pc1 w1] by blast
    have total: "calls (snd (classMap classInfo p w)) = calls w @ (?gone @ ops @ cm)"
      using cm(1) a(1) c1 by simp
    have rem: "Remove c \<in> set (?gone @ ops @ cm)" using False assms(3) by simp
    have add: "Add c \<notin> set (?gone @ ops @ cm)" using a(2) ncm by auto
    have tokens: "has_classList w \<and> list_all valid_token (map fst classInfo) \<longrightarrow>
        c \<notin> set (token_set (class_attribute (snd (classMap classInfo p w))))"
    proof (intro impI, elim conjE)
      assume nat: "has_classList w" and valid: "list_all valid_token (map fst classInfo)"
      show "c \<notin> set (token_set (class_attribute (snd (classMap classInfo p w))))"
      proof (rule native[OF nat valid])
        fix w1' :: World assume tk: "token_set (class_attribute w1') = filter ?keep (token_set (class_attribute w))"
        have "c \<notin> set (token_set (class_attribute w1'))" using tk False assms(3) by simp
        then show "c \<notin> set (token_set (class_attribute (world_of
            (add_or_remove classInfo (DOMTokenList, filter ?keep m, w1')))))"
          using add_or_remove_native[OF valid, of "filter ?keep m" w1'] nk
          by (auto simp: world_of_def)
      qed
    qed
    show ?thesis using cache gone total rem add tokens by blast
  next
    case True
    then obtain v where v: "(c, v) \<in> set classInfo" "\<not> ToBoolean v" using assms(5) by blast
    have inpc1: "Set_has c pc1" using pc1 True assms(3) by (simp add: Set_has_def)
    have uneq: "loosely_unequal v (Set_has c pc1)"
      using falsy_unequal_to_true[OF v(2)] inpc1 by simp
    have gone: "c \<notin> set m'"
      using add_or_remove_key[OF assms(4) v(1), of t1 pc1 w1] uneq v(2) by (simp add: m'_def)
    obtain ops where a: "calls (world_of (add_or_remove classInfo (t1, pc1, w1))) = calls w1 @ ops"
      "(Add c \<in> set ops) = (loosely_unequal v (Set_has c pc1) \<and> ToBoolean v)"
      "(Remove c \<in> set ops) = (loosely_unequal v (Set_has c pc1) \<and> \<not> ToBoolean v)"
      using add_or_remove_calls_key[OF assms(4) v(1), of t1 pc1 w1] by blast
    have total: "calls (snd (classMap classInfo p w)) = calls w @ (?gone @ ops @ cm)"
      using cm(1) a(1) c1 by simp
    have rem: "Remove c \<in> set (?gone @ ops @ cm)" using a(3) uneq v(2) by simp
    have add: "Add c \<notin> set (?gone @ ops @ cm)" using a(2) v(2) ncm by auto
    have tokens: "has_classList w \<and> list_all valid_token (map fst classInfo) \<longrightarrow>
        c \<notin> set (token_set (class_attribute (snd (classMap classInfo p w))))"
    proof (intro impI, elim conjE)
      assume nat: "has_classList w" and valid: "list_all valid_token (map fst classInfo)"
      show "c \<notin> set (token_set (class_attribute (snd (classMap classInfo p w))))"
      proof (rule native[OF nat valid])
        fix w1' :: World assume tk: "token_set (class_attribute w1') = filter ?keep (token_set (class_attribute w))"
        show "c \<notin> set (token_set (class_attribute (world_of
            (add_or_remove classInfo (DOMTokenList, filter ?keep m, w1')))))"
          using add_or_remove_native_key[OF valid assms(4) v(1), of "filter ?keep m" w1']
                uneq v(2) pc1
          by simp
      qed
    qed
    show ?thesis using cache gone total rem add tokens by blast
  qed
qed

theorem managed_class_removed_witness:
  "classMap [(''foo'', VBoolean True), (''bar'', VNumber (Finite 0))] class_part
       (rendered_world (Some ''external bar baz foo'') True [''foo'', ''bar'', ''baz'']) =
     (Inr (),
      \<lparr>class_attribute = Some ''external foo'', has_classList = True,
        previousClassesCache = Some [''foo''],
        calls = [Remove ''baz'', Remove ''bar'']\<rparr>)"
  using managed_class_removed[of class_part
          "rendered_world (Some ''external bar baz foo'') True [''foo'', ''bar'', ''baz'']"
          "[''foo'', ''bar'', ''baz'']" "''bar''"
          "[(''foo'', VBoolean True), (''bar'', VNumber (Finite 0))]"]
  by (simp add: run_defs)

text \<open>
  On an element with a native class list, applying a ClassInfo of booleans a second
  time changes nothing: no call is made and the world stays as the first application
  left it.
\<close>

theorem boolean_map_twice_native:
  assumes "\<not> unsupported p" and "has_classList w" and "distinct (map fst classInfo)"
    and "list_all (\<lambda>kv. is_boolean (snd kv)) classInfo"
  shows "classMap classInfo p (snd (classMap classInfo p w)) = (Inr (), snd (classMap classInfo p w))"
proof -
  define w1 where "w1 = snd (classMap classInfo p w)"
  obtain t pc where i: "initial_classList p w = (t, pc)" by (cases "initial_classList p w")
  obtain t1 pc1 wa where r: "remove_old classInfo pc (t, pc, w) = (t1, pc1, wa)"
    by (cases "remove_old classInfo pc (t, pc, w)")
  define m1 where "m1 = prev_of (add_or_remove classInfo (t1, pc1, wa))"
  have cache: "previousClassesCache w1 = Some m1"
    using classMap_cache[OF assms(1), of classInfo w] i r by (simp add: m1_def w1_def)
  have native: "has_classList w1"
    using classMap_has_classList[of classInfo p w] assms(2) by (simp add: w1_def)
  have keys: "list_all (\<lambda>n. has_key n classInfo) m1"
  proof -
    have "pc1 = filter (\<lambda>n. n \<notin> set pc \<or> has_key n classInfo) pc"
      using remove_old_prev[of classInfo pc t pc w] r by (simp add: prev_of_def)
    then have kept: "\<forall>n\<in>set pc1. has_key n classInfo" by auto
    have own: "\<forall>n\<in>fst ` set classInfo. has_key n classInfo" by (simp add: has_key_def)
    have "set m1 \<subseteq> set pc1 \<union> fst ` set classInfo"
      using add_or_remove_prev_subset[of classInfo t1 pc1 wa] by (simp add: m1_def)
    then show ?thesis using kept own unfolding list_all_iff by blast
  qed
  have settled: "list_all (\<lambda>kv. \<not> loosely_unequal (snd kv) (Set_has (fst kv) m1)) classInfo"
    unfolding list_all_iff
  proof
    fix kv assume kv: "kv \<in> set classInfo"
    obtain k v where e: "kv = (k, v)" by (cases kv)
    have b: "is_boolean v" using assms(4) kv e by (auto simp: list_all_iff)
    have "(k \<in> set m1) =
        (if loosely_unequal v (Set_has k pc1) then ToBoolean v else k \<in> set pc1)"
      using add_or_remove_key[OF assms(3), of k v t1 pc1 wa] kv e by (simp add: m1_def)
    then have "(k \<in> set m1) = ToBoolean v"
      using boolean_unequal[OF b, of "Set_has k pc1"] by (auto simp: Set_has_def)
    then show "\<not> loosely_unequal (snd kv) (Set_has (fst kv) m1)"
      using boolean_unequal[OF b, of "Set_has k m1"] by (simp add: e Set_has_def)
  qed
  have init: "initial_classList p w1 = (DOMTokenList, m1)"
    using cache native by (simp add: initial_classList_def)
  have loops: "add_or_remove classInfo (remove_old classInfo m1 (DOMTokenList, m1, w1)) =
      (DOMTokenList, m1, w1)"
    using remove_old_all_keys[OF keys, of "(DOMTokenList, m1, w1)"]
          add_or_remove_no_toggle[OF settled, of DOMTokenList w1]
    by simp
  have "classMap classInfo p w1 = (Inr (), w1\<lparr>previousClassesCache := Some m1\<rparr>)"
    using assms(1) init loops by (simp add: classMap_def)
  moreover have "w1\<lparr>previousClassesCache := Some m1\<rparr> = w1"
    using cache by (cases w1) simp
  ultimately show ?thesis by (simp add: w1_def)
qed

theorem boolean_map_twice_native_witness:
  "render_all [[(''foo'', VBoolean True), (''bar'', VBoolean False)],
               [(''foo'', VBoolean True), (''bar'', VBoolean False)]] class_part
       (rendered_world (Some ''external baz'') True [''baz'']) =
     (Inr (),
      \<lparr>class_attribute = Some ''external foo'', has_classList = True,
        previousClassesCache = Some [''foo''],
        calls = [Remove ''baz'', Add ''foo'']\<rparr>)"
  using boolean_map_twice_native[of class_part "rendered_world (Some ''external baz'') True [''baz'']"
          "[(''foo'', VBoolean True), (''bar'', VBoolean False)]"]
  by (simp add: run_defs)

subsection \<open>Usage errors\<close>

text \<open>
  C6. The directive throws its usage error exactly when the part is not an
  AttributePart, is a PropertyPart, belongs to an attribute not named \<open>class\<close>, or
  shares the attribute with another part. The error is thrown before anything is
  changed: the world is the one the directive was called in (element, attribute,
  cache and calls alike). For a part of the supported shape the directive returns.
\<close>

theorem classMap_usage_error:
  "(fst (classMap classInfo p w) = Inl UsageError) =
     (case p of AttributePart c \<Rightarrow> name c \<noteq> ''class'' \<or> 1 < parts_length c
      | PropertyPart c \<Rightarrow> True | OtherPart \<Rightarrow> True) \<and>
   (fst (classMap classInfo p w) = Inl UsageError \<longrightarrow> snd (classMap classInfo p w) = w) \<and>
   (fst (classMap classInfo p w) \<noteq> Inl UsageError \<longrightarrow> fst (classMap classInfo p w) = Inr ())"
proof -
  have thrown: "(fst (classMap classInfo p w) = Inl UsageError) = unsupported p"
    by (simp add: classMap_fst)
  have unchanged: "unsupported p \<Longrightarrow> snd (classMap classInfo p w) = w"
    by (simp add: classMap_def)
  have returned: "\<not> unsupported p \<Longrightarrow> fst (classMap classInfo p w) = Inr ()"
    by (simp add: classMap_fst)
  show ?thesis
  proof (cases "unsupported p")
    case True
    then show ?thesis using thrown unchanged unsupported_iff[of p] by simp
  next
    case False
    then show ?thesis using thrown returned unsupported_iff[of p] by simp
  qed
qed

theorem classMap_usage_error_witness:
  "fst (classMap [(''foo'', VBoolean True)]
          (AttributePart \<lparr>name = ''class'', parts_length = 2\<rparr>)
          (fresh_world (Some ''a'') True)) = Inl UsageError \<and>
   snd (classMap [(''foo'', VBoolean True)]
          (AttributePart \<lparr>name = ''class'', parts_length = 2\<rparr>)
          (fresh_world (Some ''a'') True)) = fresh_world (Some ''a'') True \<and>
   fst (classMap [(''foo'', VBoolean True)] class_part (fresh_world (Some ''a'') True)) = Inr ()"
  using classMap_usage_error[of "[(''foo'', VBoolean True)]"
          "AttributePart \<lparr>name = ''class'', parts_length = 2\<rparr>" "fresh_world (Some ''a'') True"]
        classMap_usage_error[of "[(''foo'', VBoolean True)]" class_part "fresh_world (Some ''a'') True"]
  by (simp add: class_part_def)

subsection \<open>The first render and the cache\<close>

text \<open>
  C8. On the first application at a part (no entry in the cache) the class list is
  the shim made from the part, with no classes, whatever the element's attribute
  holds and whether or not the element has a native class list. The application
  makes class calls on the shim and then exactly one \<^verbatim>\<open>setValue\<close>, last, with the
  classes of the managed set each followed by a space; that string is the attribute
  afterwards.
\<close>

theorem first_render:
  assumes "\<not> unsupported p" and "previousClassesCache w = None"
  shows "\<exists>m ops. list_all is_class_call ops \<and>
     (\<forall>a native.
        initial_classList p (w\<lparr>class_attribute := a, has_classList := native\<rparr>) =
          (Shim \<lparr>element = None, part = Some p, classes = [], changed = True\<rparr>, []) \<and>
        classMap classInfo p (w\<lparr>class_attribute := a, has_classList := native\<rparr>) =
          (Inr (),
           w\<lparr>class_attribute := Some (classString m), has_classList := native,
             previousClassesCache := Some m,
             calls := calls w @ ops @ [SetValue (classString m)]\<rparr>))"
  using classMap_first[OF assms] .

theorem first_render_witness:
  "classMap [(''foo'', VBoolean True), (''bar'', VBoolean False), (''baz'', VNumber (Finite 1))]
     class_part (fresh_world (Some ''external'') True) =
     (Inr (),
      \<lparr>class_attribute = Some ''foo baz '', has_classList = True,
        previousClassesCache = Some [''foo'', ''baz''],
        calls = [Add ''foo'', Add ''baz'', SetValue ''foo baz '']\<rparr>)"
  using first_render[of class_part "fresh_world (Some ''external'') True"
          "[(''foo'', VBoolean True), (''bar'', VBoolean False), (''baz'', VNumber (Finite 1))]"]
  by (simp add: run_defs)

text \<open>
  What the two loops guarantee for the stored set: after an application that
  returns, every stored name is a key of the ClassInfo just applied, or a
  previously managed name that the ClassInfo inherits from \<^verbatim>\<open>Object.prototype\<close>.
\<close>

theorem managed_keys_or_inherited:
  "fst (classMap classInfo p w) = Inr () \<Longrightarrow>
   \<exists>m. previousClassesCache (snd (classMap classInfo p w)) = Some m \<and>
       set m \<subseteq> fst ` set classInfo \<union>
         (set (case previousClassesCache w of None \<Rightarrow> [] | Some m \<Rightarrow> m) \<inter> set Object_prototype)"
proof -
  assume ok: "fst (classMap classInfo p w) = Inr ()"
  then have sup: "\<not> unsupported p" by (simp add: classMap_fst split: if_splits)
  obtain t pc where i: "initial_classList p w = (t, pc)" by (cases "initial_classList p w")
  have pc: "pc = (case previousClassesCache w of None \<Rightarrow> [] | Some m \<Rightarrow> m)"
    using initial_classList_prev[of p w] i by simp
  obtain t1 pc1 w1 where r: "remove_old classInfo pc (t, pc, w) = (t1, pc1, w1)"
    by (cases "remove_old classInfo pc (t, pc, w)")
  have "pc1 = filter (\<lambda>n. n \<notin> set pc \<or> has_key n classInfo) pc"
    using remove_old_prev[of classInfo pc t pc w] r by (simp add: prev_of_def)
  then have "set pc1 \<subseteq> fst ` set classInfo \<union> (set pc \<inter> set Object_prototype)"
    by (auto simp: has_key_def)
  moreover have "set (prev_of (add_or_remove classInfo (t1, pc1, w1))) \<subseteq> set pc1 \<union> fst ` set classInfo"
    using add_or_remove_prev_subset[of classInfo t1 pc1 w1] .
  ultimately have "set (prev_of (add_or_remove classInfo (t1, pc1, w1))) \<subseteq>
      fst ` set classInfo \<union> (set pc \<inter> set Object_prototype)"
    by blast
  then show ?thesis using classMap_cache[OF sup, of classInfo w] i r pc by simp
qed

theorem managed_keys_or_inherited_witness:
  "classMap [(''foo'', VBoolean True), (''bar'', VBoolean False)] class_part
       (rendered_world (Some ''baz'') True [''baz'']) =
     (Inr (),
      \<lparr>class_attribute = Some ''foo'', has_classList = True,
        previousClassesCache = Some [''foo''],
        calls = [Remove ''baz'', Add ''foo'']\<rparr>)"
  using managed_keys_or_inherited[of "[(''foo'', VBoolean True), (''bar'', VBoolean False)]" class_part
          "rendered_world (Some ''baz'') True [''baz'']"]
  by (simp add: run_defs)

text \<open>
  The empty ClassInfo applied to a part of the supported shape returns without
  error and makes no \<^verbatim>\<open>add\<close> call. Its class calls are one \<^verbatim>\<open>remove\<close> for every class of
  the previous managed set that is not a name of \<^verbatim>\<open>Object.prototype\<close>, in order; the
  managed set afterwards holds the previous classes that are such names. On the
  native list the removed classes are gone from the element's tokens and the
  others stay.
\<close>

theorem empty_map_removes_uninherited:
  assumes "\<not> unsupported p"
  shows "fst (classMap [] p w) = Inr () \<and>
         previousClassesCache (snd (classMap [] p w)) =
           Some (filter (\<lambda>n. n \<in> set Object_prototype)
                   (case previousClassesCache w of None \<Rightarrow> [] | Some m \<Rightarrow> m)) \<and>
         (\<exists>ops. calls (snd (classMap [] p w)) = calls w @ ops \<and>
            filter is_class_call ops =
              map Remove (filter (\<lambda>n. n \<notin> set Object_prototype)
                            (case previousClassesCache w of None \<Rightarrow> [] | Some m \<Rightarrow> m))) \<and>
         (previousClassesCache w \<noteq> None \<and> has_classList w \<longrightarrow>
            token_set (class_attribute (snd (classMap [] p w))) =
              filter (\<lambda>n. n \<notin> set (case previousClassesCache w of None \<Rightarrow> [] | Some m \<Rightarrow> m) \<or>
                          n \<in> set Object_prototype)
                (token_set (class_attribute w)))"
proof -
  let ?prev = "case previousClassesCache w of None \<Rightarrow> [] | Some m \<Rightarrow> m"
  let ?gone = "map Remove (filter (\<lambda>n. n \<notin> set Object_prototype) ?prev)"
  let ?commit = "if previousClassesCache w \<noteq> None \<and> has_classList w then [] else [SetValue []]"
  have e: "fst (classMap [] p w) = Inr ()"
      "previousClassesCache (snd (classMap [] p w)) =
         Some (filter (\<lambda>n. n \<in> set Object_prototype) ?prev)"
      "calls (snd (classMap [] p w)) = calls w @ ?gone @ ?commit"
      "if previousClassesCache w \<noteq> None \<and> has_classList w
       then token_set (class_attribute (snd (classMap [] p w))) =
              filter (\<lambda>n. n \<notin> set ?prev \<or> n \<in> set Object_prototype) (token_set (class_attribute w))
       else class_attribute (snd (classMap [] p w)) = Some []"
    using classMap_empty[OF assms, of w] by simp_all
  have "calls (snd (classMap [] p w)) = calls w @ (?gone @ ?commit) \<and>
        filter is_class_call (?gone @ ?commit) = ?gone"
    using e(3) by simp
  then have ops: "\<exists>ops. calls (snd (classMap [] p w)) = calls w @ ops \<and>
        filter is_class_call ops = ?gone"
    by blast
  have tokens: "previousClassesCache w \<noteq> None \<and> has_classList w \<longrightarrow>
        token_set (class_attribute (snd (classMap [] p w))) =
          filter (\<lambda>n. n \<notin> set ?prev \<or> n \<in> set Object_prototype) (token_set (class_attribute w))"
    using e(4) by simp
  show ?thesis using e(1,2) ops tokens by (intro conjI)
qed

theorem empty_map_removes_uninherited_witness:
  "classMap [] class_part (rendered_world (Some ''external foo bar'') True [''foo'', ''bar'']) =
     (Inr (),
      \<lparr>class_attribute = Some ''external'', has_classList = True,
        previousClassesCache = Some [],
        calls = [Remove ''foo'', Remove ''bar'']\<rparr>)"
  using empty_map_removes_uninherited[of class_part
          "rendered_world (Some ''external foo bar'') True [''foo'', ''bar'']"]
  by (simp add: run_defs)

subsection \<open>Truthiness\<close>

text \<open>
  C2 (as amended). Take a part of the supported shape and a ClassInfo with distinct
  keys, and a key whose value is not a non-empty string that converts to the number
  0 (such as \<^verbatim>\<open>'0'\<close>). The class is in the managed set after the application
  exactly when the value is truthy, and the falsy values are \<^verbatim>\<open>''\<close>, \<^verbatim>\<open>0\<close>, \<^verbatim>\<open>NaN\<close> and
  \<^verbatim>\<open>false\<close>. On the first render the attribute written is the string of the managed
  set, so the class is in it exactly when the value is truthy. A truthy value never
  has the class removed and has it added when it was not managed; a falsy value
  never has it added and has it removed when it was managed.
\<close>

theorem truthiness_of_values:
  assumes "\<not> unsupported p" and "distinct (map fst classInfo)" and "(k, v) \<in> set classInfo"
    and "case v of VString s \<Rightarrow> s = [] \<or> StringToNumber s \<noteq> Finite 0 | VBoolean b \<Rightarrow> True | VNumber n \<Rightarrow> True"
  shows "\<exists>m ops. previousClassesCache (snd (classMap classInfo p w)) = Some m \<and>
             (k \<in> set m) = ToBoolean v \<and>
             ToBoolean v = (v \<noteq> VString [] \<and> v \<noteq> VNumber (Finite 0) \<and> v \<noteq> VNumber NaN \<and>
                            v \<noteq> VBoolean False) \<and>
             (previousClassesCache w = None \<longrightarrow>
                class_attribute (snd (classMap classInfo p w)) = Some (classString m)) \<and>
             calls (snd (classMap classInfo p w)) = calls w @ ops \<and>
             (ToBoolean v \<longrightarrow> Remove k \<notin> set ops \<and>
                (\<not> Set_has k (case previousClassesCache w of None \<Rightarrow> [] | Some m \<Rightarrow> m) \<longrightarrow>
                   Add k \<in> set ops)) \<and>
             (\<not> ToBoolean v \<longrightarrow> Add k \<notin> set ops \<and>
                (Set_has k (case previousClassesCache w of None \<Rightarrow> [] | Some m \<Rightarrow> m) \<longrightarrow>
                   Remove k \<in> set ops))"
proof -
  let ?prev = "case previousClassesCache w of None \<Rightarrow> [] | Some m \<Rightarrow> m"
  obtain m where m: "previousClassesCache (snd (classMap classInfo p w)) = Some m"
      "(k \<in> set m) = ToBoolean v"
      "ToBoolean v = (v \<noteq> VString [] \<and> v \<noteq> VNumber (Finite 0) \<and> v \<noteq> VNumber NaN \<and>
                            v \<noteq> VBoolean False)"
      "previousClassesCache w = None \<longrightarrow>
                class_attribute (snd (classMap classInfo p w)) = Some (classString m)"
    using classMap_key_member[OF assms, of w] by (elim exE conjE)
  obtain ops where ops: "calls (snd (classMap classInfo p w)) = calls w @ ops"
      "(Add k \<in> set ops) = (loosely_unequal v (Set_has k ?prev) \<and> ToBoolean v)"
      "(Remove k \<in> set ops) = (loosely_unequal v (Set_has k ?prev) \<and> \<not> ToBoolean v)"
    using toggle_rule[OF assms(1-3), of w] by (elim exE conjE)
  have t: "ToBoolean v \<longrightarrow> Remove k \<notin> set ops \<and> (\<not> Set_has k ?prev \<longrightarrow> Add k \<in> set ops)"
  proof
    assume tv: "ToBoolean v"
    have "loosely_unequal v False" using truthy_unequal_to_false[OF tv assms(4)] .
    then show "Remove k \<notin> set ops \<and> (\<not> Set_has k ?prev \<longrightarrow> Add k \<in> set ops)"
      using tv by (simp add: ops(2,3))
  qed
  have f: "\<not> ToBoolean v \<longrightarrow> Add k \<notin> set ops \<and> (Set_has k ?prev \<longrightarrow> Remove k \<in> set ops)"
  proof
    assume fv: "\<not> ToBoolean v"
    have "loosely_unequal v True" using falsy_unequal_to_true[OF fv] .
    then show "Add k \<notin> set ops \<and> (Set_has k ?prev \<longrightarrow> Remove k \<in> set ops)"
      using fv by (simp add: ops(2,3))
  qed
  have "previousClassesCache (snd (classMap classInfo p w)) = Some m \<and>
             (k \<in> set m) = ToBoolean v \<and>
             ToBoolean v = (v \<noteq> VString [] \<and> v \<noteq> VNumber (Finite 0) \<and> v \<noteq> VNumber NaN \<and>
                            v \<noteq> VBoolean False) \<and>
             (previousClassesCache w = None \<longrightarrow>
                class_attribute (snd (classMap classInfo p w)) = Some (classString m)) \<and>
             calls (snd (classMap classInfo p w)) = calls w @ ops \<and>
             (ToBoolean v \<longrightarrow> Remove k \<notin> set ops \<and> (\<not> Set_has k ?prev \<longrightarrow> Add k \<in> set ops)) \<and>
             (\<not> ToBoolean v \<longrightarrow> Add k \<notin> set ops \<and> (Set_has k ?prev \<longrightarrow> Remove k \<in> set ops))"
    using m ops(1) t f by (intro conjI)
  then show ?thesis by (intro exI)
qed

theorem truthiness_of_values_witness:
  "classMap [(''a'', VBoolean True), (''b'', VNumber (Finite 0)), (''c'', VString []),
             (''d'', VNumber (Finite 2)), (''e'', VBoolean False), (''f'', VNumber NaN),
             (''g'', VString ''yes'')]
     class_part (fresh_world None False) =
     (Inr (),
      \<lparr>class_attribute = Some ''a d g '', has_classList = False,
        previousClassesCache = Some [''a'', ''d'', ''g''],
        calls = [Add ''a'', Add ''d'', Remove ''f'', Add ''g'', SetValue ''a d g '']\<rparr>)"
  using truthiness_of_values[of class_part
          "[(''a'', VBoolean True), (''b'', VNumber (Finite 0)), (''c'', VString []),
            (''d'', VNumber (Finite 2)), (''e'', VBoolean False), (''f'', VNumber NaN),
            (''g'', VString ''yes'')]"
          "''g''" "VString ''yes''" "fresh_world None False"]
  by (simp add: run_defs StringToNumber_yes StringToNumber_empty)

text \<open>
  C2 as stated fails: \<^verbatim>\<open>NaN\<close> is none of \<^verbatim>\<open>''\<close>, \<^verbatim>\<open>0\<close> and \<^verbatim>\<open>false\<close>, and a class mapped to it
  is not added on the first render and is removed when it was managed.
\<close>

theorem NaN_is_falsy:
  "VNumber NaN \<noteq> VString [] \<and> VNumber NaN \<noteq> VNumber (Finite 0) \<and> VNumber NaN \<noteq> VBoolean False \<and>
   classMap [(''foo'', VNumber NaN)] class_part (fresh_world None True) =
     (Inr (),
      \<lparr>class_attribute = Some [], has_classList = True,
        previousClassesCache = Some [],
        calls = [Remove ''foo'', SetValue []]\<rparr>) \<and>
   classMap [(''foo'', VNumber NaN)] class_part (rendered_world (Some ''foo'') True [''foo'']) =
     (Inr (),
      \<lparr>class_attribute = Some [], has_classList = True,
        previousClassesCache = Some [],
        calls = [Remove ''foo'']\<rparr>)"
  by (simp add: run_defs)

text \<open>
  C5. The second loop toggles when \<^verbatim>\<open>value != previousClasses.has(name)\<close>, which is
  not "truthiness differs from membership": the truthy string \<^verbatim>\<open>'0'\<close> is loosely equal
  to \<^verbatim>\<open>false\<close>, so an unmanaged class mapped to it is not added; and 2 is loosely
  unequal to \<^verbatim>\<open>true\<close>, so a managed class mapped to it is added again.
\<close>

theorem toggle_follows_loose_inequality:
  "ToBoolean (VString ''0'') \<and> \<not> Set_has ''foo'' [] \<and>
   classMap [(''foo'', VString ''0'')] class_part (fresh_world None True) =
     (Inr (),
      \<lparr>class_attribute = Some [], has_classList = True,
        previousClassesCache = Some [], calls = [SetValue []]\<rparr>) \<and>
   ToBoolean (VNumber (Finite 2)) \<and> Set_has ''foo'' [''foo''] \<and>
   classMap [(''foo'', VNumber (Finite 2))] class_part (rendered_world (Some ''foo'') True [''foo'']) =
     (Inr (),
      \<lparr>class_attribute = Some ''foo'', has_classList = True,
        previousClassesCache = Some [''foo''], calls = [Add ''foo'']\<rparr>)"
  by (simp add: run_defs)

subsection \<open>Classes the directive does not manage\<close>

text \<open>
  C3 (as amended). Take any sequence of applications at a part of the supported
  shape. A class that is not in the managed set at the start and is not a key of any
  ClassInfo of the sequence is never named by an \<^verbatim>\<open>add\<close> or \<^verbatim>\<open>remove\<close> call. When the
  applications go through the native class list (the part has a cache entry, the
  element has a class list, the keys are class names), the class is among the
  element's classes afterwards exactly when it was before.
\<close>

theorem non_interference:
  assumes "\<not> unsupported p"
    and "x \<notin> set (case previousClassesCache w of None \<Rightarrow> [] | Some m \<Rightarrow> m)"
    and "\<forall>classInfo \<in> set renders. x \<notin> fst ` set classInfo"
  shows "fst (render_all renders p w) = Inr () \<and>
         (\<exists>ops. calls (snd (render_all renders p w)) = calls w @ ops \<and>
                Add x \<notin> set ops \<and> Remove x \<notin> set ops) \<and>
         (has_classList w \<and> previousClassesCache w \<noteq> None \<and>
          (\<forall>classInfo \<in> set renders. list_all valid_token (map fst classInfo)) \<longrightarrow>
            (x \<in> set (token_set (class_attribute (snd (render_all renders p w))))) =
              (x \<in> set (token_set (class_attribute w))))"
proof -
  have calls: "fst (render_all renders p w) = Inr () \<and>
      (\<exists>ops. calls (snd (render_all renders p w)) = calls w @ ops \<and>
             Add x \<notin> set ops \<and> Remove x \<notin> set ops)"
    using render_all_other_class[OF assms] .
  have tokens: "(x \<in> set (token_set (class_attribute (snd (render_all renders p w))))) =
      (x \<in> set (token_set (class_attribute w)))"
    if native: "has_classList w" and cached: "previousClassesCache w \<noteq> None"
      and valid: "\<forall>classInfo \<in> set renders. list_all valid_token (map fst classInfo)"
  proof -
    obtain m where m: "previousClassesCache w = Some m" using cached by blast
    have notin: "x \<notin> set m" using assms(2) m by simp
    have keys: "\<forall>classInfo \<in> set renders.
        x \<notin> fst ` set classInfo \<and> list_all valid_token (map fst classInfo)"
      using assms(3) valid by blast
    show ?thesis using render_all_native[OF assms(1) native m notin keys] by blast
  qed
  show ?thesis using calls tokens by blast
qed

theorem non_interference_witness:
  "fst (render_all [[(''foo'', VBoolean True)], [(''bar'', VBoolean True), (''foo'', VBoolean False)], []]
          class_part (rendered_world (Some ''external'') True [])) = Inr () \<and>
   ''external'' \<in> set (token_set (class_attribute (snd
      (render_all [[(''foo'', VBoolean True)], [(''bar'', VBoolean True), (''foo'', VBoolean False)], []]
          class_part (rendered_world (Some ''external'') True []))))) \<and>
   calls (snd (render_all [[(''foo'', VBoolean True)], [(''bar'', VBoolean True), (''foo'', VBoolean False)], []]
          class_part (rendered_world (Some ''external'') True []))) =
     [Add ''foo'', Add ''bar'', Remove ''foo'', Remove ''bar'']"
  using non_interference[of class_part "''external''" "rendered_world (Some ''external'') True []"
          "[[(''foo'', VBoolean True)], [(''bar'', VBoolean True), (''foo'', VBoolean False)], []]"]
  by (simp add: run_defs)

text \<open>
  C3 as stated fails on the first render: the shim starts empty and its commit
  writes the whole attribute, so a class the element already had, and that no
  ClassInfo mentions, is gone.
\<close>

theorem first_render_overwrites_attribute:
  "''external'' \<in> set (token_set (class_attribute (fresh_world (Some ''external'') True))) \<and>
   ''external'' \<notin> fst ` set [(''foo'', VBoolean True)] \<and>
   classMap [(''foo'', VBoolean True)] class_part (fresh_world (Some ''external'') True) =
     (Inr (),
      \<lparr>class_attribute = Some ''foo '', has_classList = True,
        previousClassesCache = Some [''foo''],
        calls = [Add ''foo'', SetValue ''foo '']\<rparr>) \<and>
   ''external'' \<notin> set (token_set (Some ''foo ''))"
  by (simp add: run_defs)

text \<open>
  C1. On a later render without a native class list the shim is built from the part,
  \<^verbatim>\<open>new ClassList(part)\<close>, so it starts with no classes (built from the element it
  would hold \<^verbatim>\<open>external\<close> and \<^verbatim>\<open>foo\<close>), and its commit replaces the attribute: the
  class \<^verbatim>\<open>external\<close>, which the ClassInfo does not mention, is lost.
\<close>

theorem shim_of_later_render_not_seeded:
  "initial_classList class_part (rendered_world (Some ''external foo'') False []) =
     (Shim \<lparr>element = None, part = Some class_part, classes = [], changed = True\<rparr>, []) \<and>
   classes (ClassList_new (AnElement Element) (rendered_world (Some ''external foo'') False [])) =
     [''external'', ''foo''] \<and>
   classMap [(''foo'', VBoolean False)] class_part (rendered_world (Some ''external foo'') False []) =
     (Inr (),
      \<lparr>class_attribute = Some [], has_classList = False,
        previousClassesCache = Some [], calls = [SetValue []]\<rparr>) \<and>
   classMap [(''foo'', VBoolean True), (''bar'', VBoolean True)] class_part
       (rendered_world (Some ''foo external'') False [''foo'']) =
     (Inr (),
      \<lparr>class_attribute = Some ''bar '', has_classList = False,
        previousClassesCache = Some [''foo'', ''bar''], calls = [Add ''bar'', SetValue ''bar '']\<rparr>)"
  by (simp add: run_defs)

subsection \<open>Applying a map again, and the next map\<close>

text \<open>
  C4. Without a native class list the second application of the same ClassInfo
  builds a new empty shim whose \<^verbatim>\<open>changed\<close> flag is set, and commits it: the
  attribute is written again, now without the class. With a native class list and
  the value 2 the second application calls \<^verbatim>\<open>add\<close> again.
\<close>

theorem same_map_twice_writes_again:
  "render_all [[(''foo'', VBoolean True)], [(''foo'', VBoolean True)]] class_part
       (fresh_world None False) =
     (Inr (),
      \<lparr>class_attribute = Some [], has_classList = False,
        previousClassesCache = Some [''foo''],
        calls = [Add ''foo'', SetValue ''foo '', SetValue []]\<rparr>) \<and>
   render_all [[(''foo'', VNumber (Finite 2))], [(''foo'', VNumber (Finite 2))]] class_part
       (fresh_world None True) =
     (Inr (),
      \<lparr>class_attribute = Some ''foo'', has_classList = True,
        previousClassesCache = Some [''foo''],
        calls = [Add ''foo'', SetValue ''foo '', Add ''foo'']\<rparr>)"
  by (simp add: run_defs)

text \<open>
  C7. A class that is on the element, not managed, and mapped to the truthy string
  \<^verbatim>\<open>'0'\<close> is not taken into the managed set; the next ClassInfo, which has no such
  key, therefore does not remove it, and it is still on the element.
\<close>

theorem truthy_class_survives_next_map:
  "ToBoolean (VString ''0'') \<and> \<not> has_key ''c'' [] \<and>
   render_all [[(''c'', VString ''0'')], []] class_part (rendered_world (Some ''c'') True []) =
     (Inr (),
      \<lparr>class_attribute = Some ''c'', has_classList = True,
        previousClassesCache = Some [], calls = []\<rparr>) \<and>
   ''c'' \<in> set (token_set (Some ''c''))"
  by (simp add: run_defs)

subsection \<open>Names inherited from the prototype\<close>

text \<open>
  C9. The class \<^verbatim>\<open>constructor\<close> is applied by a ClassInfo and is in the managed set.
  The empty ClassInfo applied next has no key, yet \<^verbatim>\<open>'constructor' in classInfo\<close>
  holds by inheritance: the application returns without a \<^verbatim>\<open>remove\<close> call, the
  class stays in the managed set and on the element. The same with the shim on an
  element without a native class list, where the managed set keeps the class though
  the attribute is written empty.
\<close>

theorem empty_map_keeps_inherited_name:
  "classMap [(''constructor'', VBoolean True)] class_part (fresh_world None True) =
     (Inr (),
      \<lparr>class_attribute = Some ''constructor '', has_classList = True,
        previousClassesCache = Some [''constructor''],
        calls = [Add ''constructor'', SetValue ''constructor '']\<rparr>) \<and>
   classMap [] class_part
       \<lparr>class_attribute = Some ''constructor '', has_classList = True,
        previousClassesCache = Some [''constructor''],
        calls = [Add ''constructor'', SetValue ''constructor '']\<rparr> =
     (Inr (),
      \<lparr>class_attribute = Some ''constructor '', has_classList = True,
        previousClassesCache = Some [''constructor''],
        calls = [Add ''constructor'', SetValue ''constructor '']\<rparr>) \<and>
   ''constructor'' \<in> set (token_set (Some ''constructor '')) \<and>
   render_all [[(''constructor'', VBoolean True)], []] class_part (fresh_world None False) =
     (Inr (),
      \<lparr>class_attribute = Some [], has_classList = False,
        previousClassesCache = Some [''constructor''],
        calls = [Add ''constructor'', SetValue ''constructor '', SetValue []]\<rparr>)"
  by (simp add: run_defs)

text \<open>
  C10. The class \<^verbatim>\<open>toString\<close> is applied by a ClassInfo and is in the managed set.
  The ClassInfo applied next has the one key \<^verbatim>\<open>foo\<close>; \<^verbatim>\<open>'toString' in classInfo\<close> holds
  by inheritance, so the name is not deleted: the set stored after the application
  holds \<^verbatim>\<open>toString\<close>, which is not a key of the ClassInfo just applied, and the class
  is still on the element.
\<close>

theorem managed_name_outside_keys:
  "classMap [(''toString'', VBoolean True)] class_part (fresh_world None True) =
     (Inr (),
      \<lparr>class_attribute = Some ''toString '', has_classList = True,
        previousClassesCache = Some [''toString''],
        calls = [Add ''toString'', SetValue ''toString '']\<rparr>) \<and>
   classMap [(''foo'', VBoolean True)] class_part
       \<lparr>class_attribute = Some ''toString '', has_classList = True,
        previousClassesCache = Some [''toString''],
        calls = [Add ''toString'', SetValue ''toString '']\<rparr> =
     (Inr (),
      \<lparr>class_attribute = Some ''toString foo'', has_classList = True,
        previousClassesCache = Some [''toString'', ''foo''],
        calls = [Add ''toString'', SetValue ''toString '', Add ''foo'']\<rparr>) \<and>
   ''toString'' \<notin> fst ` set [(''foo'', VBoolean True)]"
  by (simp add: run_defs)

end
